theory Spec2Isabelle
  imports Complex_Main "HOL-Library.Word" "HOL-Library.Sublist"
begin

section \<open>JavaScript strings and numbers\<close>

text \<open>
  A JavaScript string is a sequence of UTF-16 code units. An ASCII literal of the source
  is written \<open>js ''...''\<close>; a literal with other characters is written as its list of
  code units.
\<close>

type_synonym js_string = "16 word list"

definition js :: "string \<Rightarrow> js_string" where
  "js s = map of_char s"

text \<open>\<^verbatim>\<open>s.startsWith(p)\<close> and \<^verbatim>\<open>s.includes(needle)\<close>.\<close>

fun startsWith :: "js_string \<Rightarrow> js_string \<Rightarrow> bool" where
  "startsWith s [] = True"
| "startsWith [] (p # ps) = False"
| "startsWith (c # cs) (p # ps) = (c = p \<and> startsWith cs ps)"

fun str_includes :: "js_string \<Rightarrow> js_string \<Rightarrow> bool" where
  "str_includes [] needle = (needle = [])"
| "str_includes (c # cs) needle = (startsWith (c # cs) needle \<or> str_includes cs needle)"

text \<open>
  The code units that \<^verbatim>\<open>String.prototype.trim\<close> strips: ECMAScript's WhiteSpace and
  LineTerminator (TAB, LF, VT, FF, CR, SP, NBSP, the Unicode space separators, LS, PS
  and the byte order mark).
\<close>

definition isWhiteSpace :: "16 word \<Rightarrow> bool" where
  "isWhiteSpace u \<longleftrightarrow>
     u \<in> {0x0009, 0x000A, 0x000B, 0x000C, 0x000D, 0x0020, 0x00A0, 0x1680,
          0x2000, 0x2001, 0x2002, 0x2003, 0x2004, 0x2005, 0x2006, 0x2007,
          0x2008, 0x2009, 0x200A, 0x2028, 0x2029, 0x202F, 0x205F, 0x3000, 0xFEFF}"

definition trim :: "js_string \<Rightarrow> js_string" where
  "trim s = rev (dropWhile isWhiteSpace (rev (dropWhile isWhiteSpace s)))"


text \<open>
  A number that comes out of \<^verbatim>\<open>parseInt\<close> (or is an integer literal): an integer
  or NaN. Every comparison with NaN is false.
\<close>

datatype js_number = NaN | Num int

fun length_lt :: "nat \<Rightarrow> js_number \<Rightarrow> bool" where
  "length_lt n NaN = False"
| "length_lt n (Num m) = (int n < m)"

text \<open>
  A value as \<^verbatim>\<open>JSON.parse\<close> returns it, or \<^verbatim>\<open>undefined\<close> (what reading a missing
  property gives): null, a boolean, a number, a string, an array, or an object as the
  list of its properties, each key once. A number is finite, given by its value (minus
  zero is zero), or an infinity (a literal beyond the range of a double).
\<close>

datatype js_num = Finite rat | PosInfinity | NegInfinity

datatype js_value =
    JUndefined
  | JNull
  | JBool bool
  | JNum js_num
  | JStr js_string
  | JArr "js_value list"
  | JObj "(js_string \<times> js_value) list"

text \<open>Truthiness, and \<^verbatim>\<open>x || d\<close>.\<close>

fun js_truthy :: "js_value \<Rightarrow> bool" where
  "js_truthy JUndefined = False"
| "js_truthy JNull = False"
| "js_truthy (JBool b) = b"
| "js_truthy (JNum n) = (n \<noteq> Finite 0)"
| "js_truthy (JStr s) = (s \<noteq> [])"
| "js_truthy (JArr xs) = True"
| "js_truthy (JObj kvs) = True"

definition js_or :: "js_value \<Rightarrow> js_value \<Rightarrow> js_value" where
  "js_or x d = (if js_truthy x then x else d)"

text \<open>
  \<^verbatim>\<open>v.k\<close> for a key \<open>k\<close> that no prototype defines (\<^verbatim>\<open>status\<close>, \<^verbatim>\<open>message\<close>,
  \<^verbatim>\<open>result\<close>): the property of an object, \<^verbatim>\<open>undefined\<close> when the object lacks it and
  on a boolean, a number, a string or an array. On null and undefined the access throws;
  a caller handles those two first.
\<close>

fun js_field :: "js_value \<Rightarrow> js_string \<Rightarrow> js_value" where
  "js_field (JObj kvs) k = (case map_of kvs k of Some v \<Rightarrow> v | None \<Rightarrow> JUndefined)"
| "js_field v k = JUndefined"

text \<open>
  \<^verbatim>\<open>m.includes(needle)\<close> for a string \<open>needle\<close>: on a string, whether it has the needle as
  a substring; on an array, whether one of its elements is that string; on any other
  value \<^verbatim>\<open>m.includes\<close> is not a function and the call throws a TypeError (\<open>None\<close>).
\<close>

fun call_includes :: "js_value \<Rightarrow> js_string \<Rightarrow> bool option" where
  "call_includes (JStr s) needle = Some (str_includes s needle)"
| "call_includes (JArr xs) needle = Some (JStr needle \<in> set xs)"
| "call_includes v needle = None"


section \<open>The batch form: QuantumBatchForm.tsx\<close>

record Company =
  name :: js_string
  industry :: js_string
  company_url :: js_string
  hq_location :: js_string

datatype company_field = Name | Industry | Company_url | Hq_location

record QuantumSettings =
  quantum_enabled :: bool
  max_companies :: js_number
  quantum_layers :: js_number
  quantum_shots :: js_number

record QuantumBatchFormData =
  fd_companies :: "Company list"
  fd_quantum_enabled :: bool
  fd_max_companies :: js_number
  fd_quantum_layers :: js_number
  fd_quantum_shots :: js_number

text \<open>The component's state: the three \<^verbatim>\<open>useState\<close> cells.\<close>

record form_state =
  companies :: "Company list"
  quantumSettings :: QuantumSettings
  showQuantumSettings :: bool

definition blank_company :: Company where
  "blank_company = \<lparr>name = [], industry = [], company_url = [], hq_location = []\<rparr>"

definition initial_form :: form_state where
  "initial_form =
     \<lparr>companies = [blank_company],
      quantumSettings = \<lparr>quantum_enabled = True, max_companies = Num 8,
                         quantum_layers = Num 3, quantum_shots = Num 1000\<rparr>,
      showQuantumSettings = False\<rparr>"

definition addCompany :: "form_state \<Rightarrow> form_state" where
  "addCompany s =
     (if length_lt (length (companies s)) (max_companies (quantumSettings s))
      then s\<lparr>companies := companies s @ [blank_company]\<rparr>
      else s)"

text \<open>\<^verbatim>\<open>xs.filter((_, i) => i !== index)\<close> and \<^verbatim>\<open>xs.map((x, i) => ...)\<close>: the rows with their positions.\<close>

definition indexed :: "'a list \<Rightarrow> ('a \<times> nat) list" where
  "indexed xs = zip xs [0..<length xs]"

definition removeCompany :: "nat \<Rightarrow> form_state \<Rightarrow> form_state" where
  "removeCompany index s =
     (if length (companies s) > 1
      then s\<lparr>companies := map fst (filter (\<lambda>(c, i). i \<noteq> index) (indexed (companies s)))\<rparr>
      else s)"

fun set_field :: "company_field \<Rightarrow> js_string \<Rightarrow> Company \<Rightarrow> Company" where
  "set_field Name v c = c\<lparr>name := v\<rparr>"
| "set_field Industry v c = c\<lparr>industry := v\<rparr>"
| "set_field Company_url v c = c\<lparr>company_url := v\<rparr>"
| "set_field Hq_location v c = c\<lparr>hq_location := v\<rparr>"

definition updateCompany :: "nat \<Rightarrow> company_field \<Rightarrow> js_string \<Rightarrow> form_state \<Rightarrow> form_state" where
  "updateCompany index field v s =
     s\<lparr>companies := map (\<lambda>(c, i). if i = index then set_field field v c else c)
                         (indexed (companies s))\<rparr>"

definition loadExampleCompanies :: "form_state \<Rightarrow> form_state" where
  "loadExampleCompanies s =
     s\<lparr>companies :=
        [\<lparr>name = [0x7279, 0x65AF, 0x62C9], industry = [0x6C7D, 0x8F66],
          company_url = js ''https://www.tesla.com'', hq_location = [0x7F8E, 0x56FD]\<rparr>,
         \<lparr>name = [0x5C0F, 0x7C73], industry = [0x79D1, 0x6280],
          company_url = js ''https://www.mi.com'', hq_location = [0x4E2D, 0x56FD]\<rparr>,
         \<lparr>name = js ''Apple'', industry = [0x79D1, 0x6280],
          company_url = js ''https://www.apple.com'', hq_location = [0x7F8E, 0x56FD]\<rparr>,
         \<lparr>name = js ''Vivo'', industry = [0x79D1, 0x6280],
          company_url = js ''https://www.vivo.com'', hq_location = [0x4E2D, 0x56FD]\<rparr>]\<rparr>"

text \<open>
  \<^verbatim>\<open>handleSubmit\<close> either shows the alert and returns, or awaits \<^verbatim>\<open>onSubmit(formData)\<close>:
  the result says which, with the alert's text or the payload handed to the callback.
\<close>

datatype submit_result = Alert js_string | OnSubmit QuantumBatchFormData

definition handleSubmit :: "form_state \<Rightarrow> submit_result" where
  "handleSubmit s =
     (let validCompanies = filter (\<lambda>company. trim (name company) \<noteq> []) (companies s)
      in if length validCompanies = 0
         then Alert [0x8BF7, 0x81F3, 0x5C11, 0x6DFB, 0x52A0, 0x4E00, 0x5BB6, 0x516C, 0x53F8]
         else OnSubmit
                \<lparr>fd_companies = validCompanies,
                 fd_quantum_enabled = quantum_enabled (quantumSettings s),
                 fd_max_companies = max_companies (quantumSettings s),
                 fd_quantum_layers = quantum_layers (quantumSettings s),
                 fd_quantum_shots = quantum_shots (quantumSettings s)\<rparr>)"

text \<open>The user's actions on the form, and a run of them from a state.\<close>

datatype form_op =
    AddCompany
  | RemoveCompany nat
  | UpdateCompany nat company_field js_string
  | LoadExampleCompanies
  | SetMaxCompanies js_number

fun form_step :: "form_op \<Rightarrow> form_state \<Rightarrow> form_state" where
  "form_step AddCompany s = addCompany s"
| "form_step (RemoveCompany i) s = removeCompany i s"
| "form_step (UpdateCompany i f v) s = updateCompany i f v s"
| "form_step LoadExampleCompanies s = loadExampleCompanies s"
| "form_step (SetMaxCompanies n) s =
     s\<lparr>quantumSettings := (quantumSettings s)\<lparr>max_companies := n\<rparr>\<rparr>"

fun form_run :: "form_op list \<Rightarrow> form_state \<Rightarrow> form_state" where
  "form_run [] s = s"
| "form_run (a # as) s = form_run as (form_step a s)"

text \<open>A name is blank when every code unit of it is white space (so the empty name is).\<close>

definition blank :: "js_string \<Rightarrow> bool" where
  "blank s \<longleftrightarrow> list_all isWhiteSpace s"


section \<open>The batch page's WebSocket session: QuantumBatchPage\<close>

text \<open>The reconnection constants of \<^verbatim>\<open>utils/constants.ts\<close>.\<close>

definition MAX_RECONNECT_ATTEMPTS :: nat where
  "MAX_RECONNECT_ATTEMPTS = 3"

definition RECONNECT_DELAY :: nat where
  "RECONNECT_DELAY = 2000"

text \<open>
  The effects a page can have on the browser beyond its own state cells: constructing
  and closing a WebSocket, issuing a request, scheduling a timeout or an interval. Of
  the page's functions, \<^verbatim>\<open>connectWebSocket\<close> constructs a WebSocket, \<^verbatim>\<open>resetAnalysis\<close>
  closes one and \<^verbatim>\<open>handleSubmit\<close> issues the one request; the page's source has no call
  of \<^verbatim>\<open>setTimeout\<close> or \<^verbatim>\<open>setInterval\<close>.
\<close>

datatype page_effect =
    NewWebSocket js_string
  | CloseWebSocket js_string
  | Fetch js_string
  | SetTimeout nat
  | SetInterval nat

text \<open>
  The page's state cells (at run time \<^verbatim>\<open>status\<close>, \<^verbatim>\<open>message\<close>, \<^verbatim>\<open>results\<close>,
  \<^verbatim>\<open>error\<close> and \<^verbatim>\<open>jobId\<close> hold whatever value a setter was given), the WebSocket in
  \<^verbatim>\<open>wsRef\<close> (by its URL), and the effects the page has had so far, in order.
\<close>

record page_state =
  pg_isResearching :: bool
  pg_status :: js_value
  pg_message :: js_value
  pg_currentPhase :: js_string
  pg_progress :: int
  pg_results :: js_value
  pg_error :: js_value
  pg_companies :: "js_string list"
  pg_jobId :: js_value
  pg_wsRef :: "js_string option"
  pg_effects :: "page_effect list"

text \<open>
  The phase block of \<^verbatim>\<open>onmessage\<close> for the message field \<open>m\<close>: skipped when \<open>m\<close> is
  falsy; otherwise the \<^verbatim>\<open>includes\<close> calls in the source's order, the first that
  returns true deciding. \<open>None\<close> when a call throws.
\<close>

definition extract_phase :: "js_value \<Rightarrow> page_state \<Rightarrow> page_state option" where
  "extract_phase m s =
     (if \<not> js_truthy m then Some s
      else
        (case call_includes m (js ''Collecting high-quality data'') of
           None \<Rightarrow> None
         | Some True \<Rightarrow> Some (s\<lparr>pg_currentPhase := js ''data_collection'', pg_progress := 20\<rparr>)
         | Some False \<Rightarrow>
        (case call_includes m (js ''Quantum encoding'') of
           None \<Rightarrow> None
         | Some True \<Rightarrow> Some (s\<lparr>pg_currentPhase := js ''quantum_encoding'', pg_progress := 40\<rparr>)
         | Some False \<Rightarrow>
        (case call_includes m (js ''parallel processing'') of
           None \<Rightarrow> None
         | Some True \<Rightarrow> Some (s\<lparr>pg_currentPhase := js ''quantum_processing'', pg_progress := 60\<rparr>)
         | Some False \<Rightarrow>
        (case call_includes m (js ''Generating quantum-enhanced'') of
           None \<Rightarrow> None
         | Some True \<Rightarrow> Some (s\<lparr>pg_currentPhase := js ''report_generation'', pg_progress := 80\<rparr>)
         | Some False \<Rightarrow>
        (case call_includes m (js ''completed'') of
           None \<Rightarrow> None
         | Some True \<Rightarrow> Some (s\<lparr>pg_currentPhase := js ''knowledge_base'', pg_progress := 100\<rparr>)
         | Some False \<Rightarrow> Some s))))))"

text \<open>
  \<^verbatim>\<open>onmessage\<close>. The event is \<open>None\<close> when \<^verbatim>\<open>JSON.parse\<close> throws. On \<^verbatim>\<open>null\<close> the
  read of \<^verbatim>\<open>data.status\<close> throws before any setter is called. When the phase block
  throws, the setters called before it have taken effect and the rest of the handler is
  skipped. In each of these cases the handler's \<^verbatim>\<open>catch\<close> only logs.
\<close>

definition ws_onmessage :: "js_value option \<Rightarrow> page_state \<Rightarrow> page_state" where
  "ws_onmessage ev s =
     (case ev of
        None \<Rightarrow> s
      | Some data \<Rightarrow>
          if data = JNull \<or> data = JUndefined then s
          else
            (let status = js_field data (js ''status'');
                 message = js_field data (js ''message'');
                 s1 = s\<lparr>pg_status := js_or status (JStr (js ''processing'')),
                         pg_message := js_or message (JStr [])\<rparr>
             in case extract_phase message s1 of
                  None \<Rightarrow> s1
                | Some s2 \<Rightarrow>
                    if status = JStr (js ''completed'')
                    then s2\<lparr>pg_isResearching := False,
                             pg_results := js_field data (js ''result''),
                             pg_progress := 100\<rparr>
                    else if status = JStr (js ''failed'') \<or> status = JStr (js ''error'')
                    then s2\<lparr>pg_isResearching := False,
                             pg_error := js_or message (JStr (js ''Analysis failed''))\<rparr>
                    else s2))"

text \<open>
  \<^verbatim>\<open>onopen\<close> and \<^verbatim>\<open>onclose\<close> only log; \<^verbatim>\<open>onerror\<close> logs and stores the error text.
\<close>

definition ws_onopen :: "page_state \<Rightarrow> page_state" where
  "ws_onopen s = s"

definition ws_onerror :: "page_state \<Rightarrow> page_state" where
  "ws_onerror s = s\<lparr>pg_error := JStr (js ''WebSocket connection error'')\<rparr>"

definition ws_onclose :: "page_state \<Rightarrow> page_state" where
  "ws_onclose s = s"

text \<open>
  \<^verbatim>\<open>connectWebSocket\<close>; \<open>ctor_ok\<close> says whether \<^verbatim>\<open>new WebSocket(wsUrl)\<close> returned
  rather than threw.
\<close>

definition connectWebSocket :: "js_string \<Rightarrow> bool \<Rightarrow> js_string \<Rightarrow> page_state \<Rightarrow> page_state" where
  "connectWebSocket WS_URL ctor_ok job s =
     (let wsUrl = WS_URL @ js ''/research/ws/'' @ job
      in if ctor_ok
         then s\<lparr>pg_wsRef := Some wsUrl, pg_effects := pg_effects s @ [NewWebSocket wsUrl]\<rparr>
         else s\<lparr>pg_error := JStr (js ''Failed to establish WebSocket connection'')\<rparr>)"

text \<open>
  \<^verbatim>\<open>resetAnalysis\<close>: nine setter calls, then \<^verbatim>\<open>wsRef.current.close()\<close> when a socket is
  held; the ref keeps the closed socket.
\<close>

definition resetAnalysis :: "page_state \<Rightarrow> page_state" where
  "resetAnalysis s =
     (let s1 = s\<lparr>pg_isResearching := False, pg_status := JStr (js ''idle''),
                  pg_message := JStr [], pg_currentPhase := [], pg_progress := 0,
                  pg_results := JNull, pg_error := JNull, pg_companies := [],
                  pg_jobId := JNull\<rparr>
      in case pg_wsRef s1 of
           Some url \<Rightarrow> s1\<lparr>pg_effects := pg_effects s1 @ [CloseWebSocket url]\<rparr>
         | None \<Rightarrow> s1)"

text \<open>The events of the socket, each with its handler, and a run of them.\<close>

datatype ws_event = OnOpen | OnMessage "js_value option" | OnError | OnClose

fun ws_handle :: "ws_event \<Rightarrow> page_state \<Rightarrow> page_state" where
  "ws_handle OnOpen s = ws_onopen s"
| "ws_handle (OnMessage ev) s = ws_onmessage ev s"
| "ws_handle OnError s = ws_onerror s"
| "ws_handle OnClose s = ws_onclose s"

fun ws_run :: "ws_event list \<Rightarrow> page_state \<Rightarrow> page_state" where
  "ws_run [] s = s"
| "ws_run (e # es) s = ws_run es (ws_handle e s)"

text \<open>
  The state right after a successful submission of job \<open>j1\<close>: the request was issued,
  the start text of the response's fallback stored, and the socket constructed.
\<close>

definition researching_page :: page_state where
  "researching_page =
     \<lparr>pg_isResearching = True, pg_status = JStr (js ''processing''),
      pg_message = JStr [0x91CF, 0x5B50, 0x5E76, 0x884C, 0x5206, 0x6790, 0x5DF2, 0x542F, 0x52A8],
      pg_currentPhase = [], pg_progress = 0, pg_results = JNull, pg_error = JNull,
      pg_companies = [js ''Acme''], pg_jobId = JStr (js ''j1''),
      pg_wsRef = Some (js ''ws://host/research/ws/j1''),
      pg_effects = [Fetch (js ''http://host/research/quantum-batch''),
                    NewWebSocket (js ''ws://host/research/ws/j1'')]\<rparr>"


section \<open>Polling and reset: utils/handlers.ts\<close>

record ResearchOutput =
  out_summary :: js_string
  out_report :: js_string

record ResearchStatusType =
  st_step :: js_string
  st_message :: js_string

datatype phase = Search | Enrichment | Briefing | Complete








record Query =
  q_text :: js_string
  q_number :: int
  q_category :: js_string

record StreamingQuery =
  sq_text :: js_string
  sq_number :: int
  sq_category :: js_string
  sq_isComplete :: bool

record BriefingStatus =
  bs_company :: bool
  bs_industry :: bool
  bs_financial :: bool
  bs_news :: bool

record Count =
  total :: int
  enriched :: int

record EnrichmentCounts =
  ec_company :: Count
  ec_industry :: Count
  ec_financial :: Count
  ec_news :: Count

record DocCount =
  initial :: int
  kept :: int

text \<open>
  \<^verbatim>\<open>ResearchState\<close>; the object \<^verbatim>\<open>streamingQueries\<close> and the index type
  \<^verbatim>\<open>DocCounts\<close> are given by their entries, in \<^verbatim>\<open>Object.entries\<close> order.
\<close>

record ResearchState =
  rs_status :: js_string
  rs_message :: js_string
  rs_queries :: "Query list"
  rs_streamingQueries :: "(js_string \<times> StreamingQuery) list"
  rs_briefingStatus :: BriefingStatus
  rs_enrichmentCounts :: "EnrichmentCounts option"
  rs_docCounts :: "(js_string \<times> DocCount) list option"

text \<open>The cells whose setters \<^verbatim>\<open>resetResearch\<close> receives.\<close>

record reset_cells =
  r_status :: "ResearchStatusType option"
  r_output :: "ResearchOutput option"
  r_error :: "js_string option"
  r_isComplete :: bool
  r_researchState :: ResearchState
  r_pdfUrl :: "js_string option"
  r_currentPhase :: "phase option"
  r_isSearchPhase :: bool
  r_shouldShowQueries :: bool
  r_isQueriesExpanded :: bool
  r_isBriefingExpanded :: bool
  r_isEnrichmentExpanded :: bool
  r_isResetting :: bool
  r_hasScrolledToStatus :: bool

text \<open>The arrow function handed to \<^verbatim>\<open>setTimeout\<close>: fourteen setter calls.\<close>

definition reset_callback :: "reset_cells \<Rightarrow> reset_cells" where
  "reset_callback s =
     s\<lparr>r_status := None,
       r_output := None,
       r_error := None,
       r_isComplete := False,
       r_researchState :=
         \<lparr>rs_status = js ''idle'', rs_message = [], rs_queries = [],
          rs_streamingQueries = [],
          rs_briefingStatus = \<lparr>bs_company = False, bs_industry = False,
                                bs_financial = False, bs_news = False\<rparr>,
          rs_enrichmentCounts = None, rs_docCounts = None\<rparr>,
       r_pdfUrl := None,
       r_currentPhase := None,
       r_isSearchPhase := False,
       r_shouldShowQueries := False,
       r_isQueriesExpanded := True,
       r_isBriefingExpanded := True,
       r_isEnrichmentExpanded := True,
       r_isResetting := False,
       r_hasScrolledToStatus := False\<rparr>"

text \<open>
  \<^verbatim>\<open>resetResearch\<close> sets \<^verbatim>\<open>isResetting\<close> and schedules the callback: the new state, the
  delay in milliseconds and the callback.
\<close>

definition resetResearch :: "reset_cells \<Rightarrow> reset_cells \<times> nat \<times> (reset_cells \<Rightarrow> reset_cells)" where
  "resetResearch s = (s\<lparr>r_isResetting := True\<rparr>, 300, reset_callback)"


section \<open>The queries panel: ResearchQueries.tsx\<close>

definition CATEGORIES :: "js_string list" where
  "CATEGORIES = [js ''company'', js ''industry'', js ''financial'', js ''news'']"

text \<open>A rendered row: a streaming query under its key, or a completed one under its index.\<close>

datatype rendered_query = StreamingRow js_string StreamingQuery | CompletedRow nat Query

definition category_section ::
  "js_string \<Rightarrow> (js_string \<times> StreamingQuery) list \<Rightarrow> Query list \<Rightarrow> rendered_query list" where
  "category_section category streamingQueries queries =
     map (\<lambda>(key, query). StreamingRow key query)
         (filter (\<lambda>(key, query). startsWith key category) streamingQueries)
     @ map (\<lambda>(query, idx). CompletedRow idx query)
         (indexed (filter (\<lambda>q. startsWith (q_category q) category) queries))"

definition query_sections ::
  "(js_string \<times> StreamingQuery) list \<Rightarrow> Query list \<Rightarrow> (js_string \<times> rendered_query list) list" where
  "query_sections streamingQueries queries =
     map (\<lambda>category. (category, category_section category streamingQueries queries)) CATEGORIES"

text \<open>The collapsed summary: "\<open>n\<close> queries generated across \<open>k\<close> categories".\<close>

definition collapsed_summary :: "bool \<Rightarrow> Query list \<Rightarrow> (nat \<times> nat) option" where
  "collapsed_summary isExpanded queries =
     (if \<not> isExpanded then Some (length queries, length CATEGORIES) else None)"

fun is_streaming :: "rendered_query \<Rightarrow> bool" where
  "is_streaming (StreamingRow key q) = True"
| "is_streaming (CompletedRow idx q) = False"

fun completed_queries :: "rendered_query list \<Rightarrow> Query list" where
  "completed_queries [] = []"
| "completed_queries (StreamingRow key q # rows) = completed_queries rows"
| "completed_queries (CompletedRow idx q # rows) = q # completed_queries rows"

text \<open>The rows that are streaming queries, with their keys.\<close>

fun streaming_rows :: "rendered_query list \<Rightarrow> (js_string \<times> StreamingQuery) list" where
  "streaming_rows [] = []"
| "streaming_rows (StreamingRow key q # rows) = (key, q) # streaming_rows rows"
| "streaming_rows (CompletedRow idx q # rows) = streaming_rows rows"


section \<open>The Google Maps script loader: LocationInput.tsx\<close>

text \<open>
  The loader's module state (\<^verbatim>\<open>isScriptLoaded\<close>, \<^verbatim>\<open>isScriptLoading\<close>,
  \<^verbatim>\<open>scriptLoadPromise\<close>) together with what it reads and writes in the browser:
  the promises it created (a promise is its index in \<open>promises\<close>), the promise that
  \<^verbatim>\<open>window.initGoogleMapsCallback\<close> resolves, the script elements it appended (each with
  the promise its \<^verbatim>\<open>onerror\<close> rejects and its load status), the running check intervals
  and pending timeouts (each by the promise of its load), whether the document held a
  Google Maps script of some other origin, whether \<^verbatim>\<open>window.google?.maps?.places\<close> is
  there, and whether the API key is set.
\<close>

datatype promise_state = Pending | Resolved | Rejected

datatype script_status = Loading | Loaded | Failed

datatype load_result = ResolvedPromise | PromiseRef nat

record loader_state =
  isScriptLoaded :: bool
  isScriptLoading :: bool
  scriptLoadPromise :: "nat option"
  promises :: "promise_state list"
  initGoogleMapsCallback :: "nat option"
  appended :: "(nat \<times> script_status) list"
  checkIntervals :: "nat set"
  timeouts :: "nat set"
  foreign_script :: bool
  places_available :: bool
  apiKey_defined :: bool

text \<open>\<^verbatim>\<open>resolve()\<close> and \<^verbatim>\<open>reject(e)\<close>: only a pending promise changes.\<close>

definition settle :: "nat \<Rightarrow> promise_state \<Rightarrow> loader_state \<Rightarrow> loader_state" where
  "settle p v s =
     (if p < length (promises s) \<and> promises s ! p = Pending
      then s\<lparr>promises := (promises s)[p := v]\<rparr> else s)"

text \<open>
  \<^verbatim>\<open>document.querySelector('script[src*="maps.googleapis.com/maps/api/js"]')\<close> finds a
  script when the document held one from the start or the loader appended one.
\<close>

definition existingScript :: "loader_state \<Rightarrow> bool" where
  "existingScript s \<longleftrightarrow> foreign_script s \<or> appended s \<noteq> []"

text \<open>The executor of \<^verbatim>\<open>new Promise\<close>, run at once, for the new promise \<open>p\<close>.\<close>

definition executor :: "nat \<Rightarrow> loader_state \<Rightarrow> loader_state" where
  "executor p s =
     (if places_available s
      then settle p Resolved (s\<lparr>isScriptLoaded := True, isScriptLoading := False\<rparr>)
      else
        (let s1 = s\<lparr>initGoogleMapsCallback := Some p\<rparr>
         in if \<not> existingScript s1
            then (if \<not> apiKey_defined s1
                  then settle p Rejected (s1\<lparr>isScriptLoading := False\<rparr>)
                  else s1\<lparr>appended := appended s1 @ [(p, Loading)]\<rparr>)
            else s1\<lparr>checkIntervals := insert p (checkIntervals s1),
                    timeouts := insert p (timeouts s1)\<rparr>))"

text \<open>
  \<^verbatim>\<open>loadGoogleMapsScript\<close>: the promise returned (a fresh resolved one from
  \<^verbatim>\<open>Promise.resolve()\<close>, or a promise of the loader's) and the state after the call.
\<close>

definition loadGoogleMapsScript :: "loader_state \<Rightarrow> load_result \<times> loader_state" where
  "loadGoogleMapsScript s =
     (if isScriptLoaded s \<and> places_available s then (ResolvedPromise, s)
      else
        (case (if isScriptLoading s then scriptLoadPromise s else None) of
           Some p \<Rightarrow> (PromiseRef p, s)
         | None \<Rightarrow>
             if existingScript s \<and> places_available s
             then (ResolvedPromise, s\<lparr>isScriptLoaded := True\<rparr>)
             else
               (let p = length (promises s);
                    s1 = s\<lparr>isScriptLoading := True, promises := promises s @ [Pending]\<rparr>;
                    s2 = executor p s1
                in (PromiseRef p, s2\<lparr>scriptLoadPromise := Some p\<rparr>))))"

text \<open>
  The four callbacks the loader installs: \<^verbatim>\<open>window.initGoogleMapsCallback\<close>,
  \<^verbatim>\<open>script.onerror\<close>, the function of \<^verbatim>\<open>setInterval\<close> and the function of
  \<^verbatim>\<open>setTimeout\<close>, each for the promise \<open>p\<close> of its load.
\<close>

definition callback_body :: "nat \<Rightarrow> loader_state \<Rightarrow> loader_state" where
  "callback_body p s = settle p Resolved (s\<lparr>isScriptLoaded := True, isScriptLoading := False\<rparr>)"

definition script_onerror :: "nat \<Rightarrow> loader_state \<Rightarrow> loader_state" where
  "script_onerror p s =
     settle p Rejected (s\<lparr>isScriptLoading := False, scriptLoadPromise := None\<rparr>)"

definition interval_tick :: "nat \<Rightarrow> loader_state \<Rightarrow> loader_state" where
  "interval_tick p s =
     (if places_available s
      then settle p Resolved
             (s\<lparr>isScriptLoaded := True, isScriptLoading := False,
                checkIntervals := checkIntervals s - {p}\<rparr>)
      else s)"

definition timeout_fire :: "nat \<Rightarrow> loader_state \<Rightarrow> loader_state" where
  "timeout_fire p s =
     (let s1 = s\<lparr>checkIntervals := checkIntervals s - {p}\<rparr>
      in if \<not> isScriptLoaded s1
         then settle p Rejected (s1\<lparr>isScriptLoading := False\<rparr>)
         else s1)"

text \<open>
  What can happen between calls. The browser may make the API available at any time and
  never takes it away; Google invokes \<^verbatim>\<open>window.initGoogleMapsCallback\<close> only once the API
  is available; an appended script that is still loading either loads or fails, once; a
  running interval ticks; a pending timeout fires, once. A step is \<open>None\<close> when the event
  cannot happen in the state.
\<close>

datatype loader_event =
    Call
  | ApiReady
  | InvokeCallback
  | ScriptLoads nat
  | ScriptFails nat
  | IntervalTick nat
  | TimeoutFires nat

fun loader_step :: "loader_event \<Rightarrow> loader_state \<Rightarrow> loader_state option" where
  "loader_step Call s = Some (snd (loadGoogleMapsScript s))"
| "loader_step ApiReady s = Some (s\<lparr>places_available := True\<rparr>)"
| "loader_step InvokeCallback s =
     (case initGoogleMapsCallback s of
        Some p \<Rightarrow> if places_available s then Some (callback_body p s) else None
      | None \<Rightarrow> None)"
| "loader_step (ScriptLoads i) s =
     (if i < length (appended s) \<and> snd (appended s ! i) = Loading
      then Some (s\<lparr>appended := (appended s)[i := (fst (appended s ! i), Loaded)]\<rparr>)
      else None)"
| "loader_step (ScriptFails i) s =
     (if i < length (appended s) \<and> snd (appended s ! i) = Loading
      then Some (script_onerror (fst (appended s ! i))
                   (s\<lparr>appended := (appended s)[i := (fst (appended s ! i), Failed)]\<rparr>))
      else None)"
| "loader_step (IntervalTick p) s =
     (if p \<in> checkIntervals s then Some (interval_tick p s) else None)"
| "loader_step (TimeoutFires p) s =
     (if p \<in> timeouts s then Some (timeout_fire p (s\<lparr>timeouts := timeouts s - {p}\<rparr>)) else None)"

fun loader_run :: "loader_event list \<Rightarrow> loader_state \<Rightarrow> loader_state option" where
  "loader_run [] s = Some s"
| "loader_run (e # es) s =
     (case loader_step e s of None \<Rightarrow> None | Some s' \<Rightarrow> loader_run es s')"

text \<open>The state when the module is loaded, for any document, API state and key.\<close>

definition initial_loader :: "bool \<Rightarrow> bool \<Rightarrow> bool \<Rightarrow> loader_state" where
  "initial_loader foreign api key =
     \<lparr>isScriptLoaded = False, isScriptLoading = False, scriptLoadPromise = None,
      promises = [], initGoogleMapsCallback = None, appended = [],
      checkIntervals = {}, timeouts = {},
      foreign_script = foreign, places_available = api, apiKey_defined = key\<rparr>"

text \<open>Promise \<open>p\<close> of the loader is pending, or resolved.\<close>

definition pending :: "loader_state \<Rightarrow> nat \<Rightarrow> bool" where
  "pending s p \<longleftrightarrow> p < length (promises s) \<and> promises s ! p = Pending"

definition resolved :: "loader_state \<Rightarrow> nat \<Rightarrow> bool" where
  "resolved s p \<longleftrightarrow> p < length (promises s) \<and> promises s ! p = Resolved"

text \<open>
  The three modes of the loader, for the invariant: it succeeded; the load of promise
  \<open>p\<close> is in flight; or nothing is loaded or in flight.
\<close>

definition succeeded :: "loader_state \<Rightarrow> bool" where
  "succeeded s \<longleftrightarrow>
     isScriptLoaded s \<and> \<not> isScriptLoading s \<and> places_available s \<and> (\<forall>q. \<not> pending s q)"

definition loading_mode :: "loader_state \<Rightarrow> nat \<Rightarrow> bool" where
  "loading_mode s p \<longleftrightarrow>
     \<not> isScriptLoaded s \<and> isScriptLoading s \<and>
     scriptLoadPromise s = Some p \<and> initGoogleMapsCallback s = Some p \<and>
     (\<forall>q. pending s q \<longleftrightarrow> q = p) \<and> (\<forall>q. \<not> resolved s q) \<and>
     checkIntervals s \<subseteq> {p} \<and> timeouts s \<subseteq> {p} \<and>
     (\<forall>q. (q, Loading) \<in> set (appended s) \<longrightarrow>
          q = p \<and> checkIntervals s = {} \<and> timeouts s = {})"

definition idle :: "loader_state \<Rightarrow> bool" where
  "idle s \<longleftrightarrow>
     \<not> isScriptLoaded s \<and> \<not> isScriptLoading s \<and>
     (\<forall>q. \<not> pending s q) \<and> (\<forall>q. \<not> resolved s q) \<and>
     checkIntervals s = {} \<and> timeouts s = {} \<and>
     (\<forall>q. (q, Loading) \<notin> set (appended s))"

definition loader_inv :: "loader_state \<Rightarrow> bool" where
  "loader_inv s \<longleftrightarrow>
     length (appended s) \<le> 1 \<and> (succeeded s \<or> (\<exists>p. loading_mode s p) \<or> idle s)"


section \<open>Predicates of the statements\<close>


definition msg_field :: "js_value \<Rightarrow> js_value" where
  "msg_field data = js_field data (js ''message'')"

definition result_field :: "js_value \<Rightarrow> js_value" where
  "result_field data = js_field data (js ''result'')"

definition status_field :: "js_value \<Rightarrow> js_value" where
  "status_field data = js_field data (js ''status'')"

definition msg_has :: "js_value \<Rightarrow> string \<Rightarrow> bool" where
  "msg_has data needle \<longleftrightarrow> call_includes (msg_field data) (js needle) = Some True"

fun has_includes :: "js_value \<Rightarrow> bool" where
  "has_includes (JStr s) = True"
| "has_includes (JArr xs) = True"
| "has_includes v = False"

definition msg_throws :: "js_value \<Rightarrow> bool" where
  "msg_throws data \<longleftrightarrow> js_truthy (msg_field data) \<and> \<not> has_includes (msg_field data)"

text \<open>
  For the proofs: the phase block when no call throws, and the state after the first two
  setters and the phase block.
\<close>

definition matched_phase :: "js_value \<Rightarrow> page_state \<Rightarrow> page_state" where
  "matched_phase m s =
     (if call_includes m (js ''Collecting high-quality data'') = Some True
        then s\<lparr>pg_currentPhase := js ''data_collection'', pg_progress := 20\<rparr>
      else if call_includes m (js ''Quantum encoding'') = Some True
        then s\<lparr>pg_currentPhase := js ''quantum_encoding'', pg_progress := 40\<rparr>
      else if call_includes m (js ''parallel processing'') = Some True
        then s\<lparr>pg_currentPhase := js ''quantum_processing'', pg_progress := 60\<rparr>
      else if call_includes m (js ''Generating quantum-enhanced'') = Some True
        then s\<lparr>pg_currentPhase := js ''report_generation'', pg_progress := 80\<rparr>
      else if call_includes m (js ''completed'') = Some True
        then s\<lparr>pg_currentPhase := js ''knowledge_base'', pg_progress := 100\<rparr>
      else s)"

definition after_phase :: "js_value \<Rightarrow> page_state \<Rightarrow> page_state" where
  "after_phase data s =
     matched_phase (msg_field data)
       (s\<lparr>pg_status := js_or (status_field data) (JStr (js ''processing'')),
          pg_message := js_or (msg_field data) (JStr [])\<rparr>)"


section \<open>Example inputs\<close>

definition acme :: Company where
  "acme = \<lparr>name = js ''Acme Corp'', industry = js ''Tools'', company_url = [], hq_location = []\<rparr>"

definition beta :: Company where
  "beta = \<lparr>name = js '' Beta '', industry = [], company_url = [], hq_location = []\<rparr>"

definition spaces_only :: Company where
  "spaces_only = \<lparr>name = [0x0020, 0x00A0, 0x0009], industry = js ''Void'', company_url = [], hq_location = []\<rparr>"

definition mixed_form :: form_state where
  "mixed_form = initial_form\<lparr>companies := [blank_company, acme, spaces_only, beta]\<rparr>"

definition full_form :: form_state where
  "full_form =
     initial_form\<lparr>companies := [acme, beta],
                   quantumSettings := (quantumSettings initial_form)\<lparr>max_companies := Num 2\<rparr>\<rparr>"

definition encoding_msg :: js_value where
  "encoding_msg =
     JObj [(js ''status'', JStr (js ''processing'')),
           (js ''message'', JStr (js ''Quantum encoding of parallel processing inputs''))]"

definition completed_encoding_msg :: js_value where
  "completed_encoding_msg =
     JObj [(js ''status'', JStr (js ''completed'')),
           (js ''message'', JStr (js ''Quantum encoding'')),
           (js ''result'', JNum (Finite 7))]"

definition completed_plain_msg :: js_value where
  "completed_plain_msg =
     JObj [(js ''status'', JStr (js ''completed'')),
           (js ''message'', JStr (js ''done'')),
           (js ''result'', JNum (Finite 7))]"

definition failed_msg :: js_value where
  "failed_msg = JObj [(js ''status'', JStr (js ''failed''))]"

definition failed_number_msg :: js_value where
  "failed_number_msg =
     JObj [(js ''status'', JStr (js ''failed'')), (js ''message'', JNum (Finite 5))]"




definition q_company :: Query where
  "q_company = \<lparr>q_text = js ''acme revenue'', q_number = 1, q_category = js ''company''\<rparr>"

definition q_news :: Query where
  "q_news = \<lparr>q_text = js ''acme news'', q_number = 1, q_category = js ''news''\<rparr>"

definition sq_company :: StreamingQuery where
  "sq_company =
     \<lparr>sq_text = js ''acme fou'', sq_number = 2, sq_category = js ''company'',
      sq_isComplete = False\<rparr>"


text \<open>The loader after a first call appended the script, and after the script loaded.\<close>

definition loading_example :: loader_state where
  "loading_example =
     \<lparr>isScriptLoaded = False, isScriptLoading = True, scriptLoadPromise = Some 0,
      promises = [Pending], initGoogleMapsCallback = Some 0, appended = [(0, Loading)],
      checkIntervals = {}, timeouts = {},
      foreign_script = False, places_available = False, apiKey_defined = True\<rparr>"

definition loaded_example :: loader_state where
  "loaded_example =
     \<lparr>isScriptLoaded = True, isScriptLoading = False, scriptLoadPromise = Some 0,
      promises = [Resolved], initGoogleMapsCallback = Some 0, appended = [(0, Loaded)],
      checkIntervals = {}, timeouts = {},
      foreign_script = False, places_available = True, apiKey_defined = True\<rparr>"


section \<open>Strings\<close>

lemma startsWith_prefix: "startsWith s p \<longleftrightarrow> prefix p s"
  by (induction s p rule: startsWith.induct) auto

lemma str_includes_sublist: "str_includes s needle \<longleftrightarrow> sublist needle s"
  by (induction s) (auto simp: startsWith_prefix sublist_Cons_right)

lemma dropWhile_all: "(\<forall>x\<in>set (dropWhile P xs). P x) \<longleftrightarrow> (\<forall>x\<in>set xs. P x)"
  by (induction xs) auto

lemma trim_empty_iff: "trim s = [] \<longleftrightarrow> blank s"
proof -
  have "dropWhile isWhiteSpace (rev (dropWhile isWhiteSpace s)) = [] \<longleftrightarrow> list_all isWhiteSpace s"
    by (simp add: dropWhile_eq_Nil_conv list_all_iff dropWhile_all)
  then show ?thesis by (simp add: trim_def blank_def)
qed

lemma filter_blank:
  "filter (\<lambda>c. trim (name c) \<noteq> []) cs = filter (\<lambda>c. \<not> blank (name c)) cs"
  by (simp add: trim_empty_iff)


section \<open>The batch form\<close>

lemma indexed_snoc: "indexed (xs @ [x]) = indexed xs @ [(x, length xs)]"
  by (simp add: indexed_def)

lemma map_fst_indexed: "map fst (indexed xs) = xs"
  by (simp add: indexed_def)

text \<open>Filtering out position \<open>index\<close> drops that row, and no row when it is out of range.\<close>

lemma remove_index:
  "map fst (filter (\<lambda>(c, i). i \<noteq> index) (indexed xs)) = take index xs @ drop (Suc index) xs"
proof (induction xs rule: rev_induct)
  case Nil
  show ?case by (simp add: indexed_def)
next
  case (snoc x xs)
  show ?case
  proof (cases "index < length xs")
    case True
    with snoc show ?thesis by (simp add: indexed_snoc)
  next
    case False
    with snoc show ?thesis by (cases "index = length xs") (simp_all add: indexed_snoc)
  qed
qed

lemma removeCompany_companies:
  "companies (removeCompany i s) =
     (if length (companies s) > 1 then take i (companies s) @ drop (Suc i) (companies s)
      else companies s)"
  by (simp add: removeCompany_def remove_index)

lemma removeCompany_nonempty:
  assumes "companies s \<noteq> []"
  shows "companies (removeCompany i s) \<noteq> []"
proof (cases "length (companies s) > 1")
  case True
  then have "length (take i (companies s) @ drop (Suc i) (companies s)) \<ge> 1" by auto
  then show ?thesis using True by (auto simp: removeCompany_companies)
next
  case False
  then show ?thesis using assms by (simp add: removeCompany_companies)
qed

lemma updateCompany_length: "length (companies (updateCompany i f v s)) = length (companies s)"
  by (simp add: updateCompany_def indexed_def)

lemma addCompany_length: "length (companies (addCompany s)) \<ge> length (companies s)"
  by (simp add: addCompany_def)

lemma form_step_nonempty:
  assumes "companies s \<noteq> []"
  shows "companies (form_step a s) \<noteq> []"
proof (cases a)
  case AddCompany
  then show ?thesis using assms by (simp add: addCompany_def)
next
  case (RemoveCompany i)
  then show ?thesis using assms by (simp add: removeCompany_nonempty)
next
  case (UpdateCompany i f v)
  have "length (companies (updateCompany i f v s)) \<noteq> 0"
    using assms by (simp add: updateCompany_length)
  then show ?thesis using UpdateCompany by auto
next
  case LoadExampleCompanies
  then show ?thesis by (simp add: loadExampleCompanies_def)
next
  case (SetMaxCompanies n)
  then show ?thesis using assms by simp
qed

lemma form_run_nonempty: "companies s \<noteq> [] \<Longrightarrow> companies (form_run ops s) \<noteq> []"
  by (induction ops arbitrary: s) (auto simp: form_step_nonempty)

text \<open>
  C5. When every company name is blank, \<^verbatim>\<open>handleSubmit\<close> shows the alert and never calls
  \<^verbatim>\<open>onSubmit\<close>; when some name is not blank, it calls \<^verbatim>\<open>onSubmit\<close> once, with the
  settings and with exactly the companies whose name is not blank, in their order.
\<close>

theorem handleSubmit_validation:
  "(list_all (\<lambda>c. blank (name c)) (companies s) \<longrightarrow>
      (\<exists>msg. handleSubmit s = Alert msg) \<and> (\<forall>fd. handleSubmit s \<noteq> OnSubmit fd)) \<and>
   (\<not> list_all (\<lambda>c. blank (name c)) (companies s) \<longrightarrow>
      handleSubmit s =
        OnSubmit \<lparr>fd_companies = filter (\<lambda>c. \<not> blank (name c)) (companies s),
                  fd_quantum_enabled = quantum_enabled (quantumSettings s),
                  fd_max_companies = max_companies (quantumSettings s),
                  fd_quantum_layers = quantum_layers (quantumSettings s),
                  fd_quantum_shots = quantum_shots (quantumSettings s)\<rparr>)"
  by (auto simp: handleSubmit_def Let_def filter_blank list_all_iff filter_empty_conv)

theorem handleSubmit_validation_witness:
  "list_all (\<lambda>c. blank (name c)) (companies initial_form) \<and>
   (\<forall>fd. handleSubmit initial_form \<noteq> OnSubmit fd) \<and>
   \<not> list_all (\<lambda>c. blank (name c)) (companies mixed_form) \<and>
   (\<exists>fd. handleSubmit mixed_form = OnSubmit fd \<and> fd_companies fd = [acme, beta])"
proof -
  have b0: "blank (name blank_company)" by (simp add: blank_def blank_company_def)
  have b1: "\<not> blank (name acme)" by (simp add: blank_def acme_def js_def isWhiteSpace_def)
  have b2: "blank (name spaces_only)" by (simp add: blank_def spaces_only_def isWhiteSpace_def)
  have b3: "\<not> blank (name beta)" by (simp add: blank_def beta_def js_def isWhiteSpace_def)
  show ?thesis
    using handleSubmit_validation[of initial_form] handleSubmit_validation[of mixed_form] b0 b1 b2 b3
    by (simp add: initial_form_def mixed_form_def)
qed

text \<open>
  C6. \<^verbatim>\<open>addCompany\<close> appends exactly one blank row when the number of rows is strictly
  below \<^verbatim>\<open>max_companies\<close> and changes nothing otherwise; so whenever it changes the
  list, and whenever the list was within the cap, the result is within the cap.
\<close>

theorem addCompany_cap:
  "(length_lt (length (companies s)) (max_companies (quantumSettings s)) \<longrightarrow>
      addCompany s = s\<lparr>companies := companies s @ [blank_company]\<rparr> \<and>
      length (companies (addCompany s)) = length (companies s) + 1) \<and>
   (\<not> length_lt (length (companies s)) (max_companies (quantumSettings s)) \<longrightarrow>
      addCompany s = s) \<and>
   (\<forall>cap. max_companies (quantumSettings s) = Num cap \<longrightarrow>
      (companies (addCompany s) \<noteq> companies s \<longrightarrow>
         int (length (companies (addCompany s))) \<le> cap) \<and>
      (int (length (companies s)) \<le> cap \<longrightarrow>
         int (length (companies (addCompany s))) \<le> cap))"
  by (auto simp: addCompany_def)

theorem addCompany_cap_witness:
  "length_lt (length (companies initial_form)) (max_companies (quantumSettings initial_form)) \<and>
   companies (addCompany initial_form) = [blank_company, blank_company] \<and>
   \<not> length_lt (length (companies full_form)) (max_companies (quantumSettings full_form)) \<and>
   addCompany full_form = full_form \<and>
   max_companies (quantumSettings initial_form) = Num 8 \<and>
   int (length (companies (addCompany initial_form))) \<le> 8"
  using addCompany_cap[of initial_form] addCompany_cap[of full_form]
  by (simp add: initial_form_def full_form_def)

text \<open>
  C9. The companies list is never empty: the initial state has one row, \<^verbatim>\<open>addCompany\<close>
  never shortens the list, \<^verbatim>\<open>updateCompany\<close> keeps its length, \<^verbatim>\<open>removeCompany\<close> changes
  nothing on a list of at most one row and removes at most one row otherwise, and after
  any run of the form's operations from the initial state at least one row is left.
\<close>

theorem companies_never_empty:
  "length (companies initial_form) = 1 \<and>
   length (companies s) \<le> length (companies (addCompany s)) \<and>
   length (companies (updateCompany i f v s)) = length (companies s) \<and>
   (length (companies s) \<le> 1 \<longrightarrow> removeCompany i s = s) \<and>
   (length (companies s) > 1 \<longrightarrow>
      length (companies s) - 1 \<le> length (companies (removeCompany i s)) \<and>
      length (companies (removeCompany i s)) \<le> length (companies s)) \<and>
   length (companies (form_run ops initial_form)) \<ge> 1"
proof -
  have "companies (form_run ops initial_form) \<noteq> []"
    by (rule form_run_nonempty) (simp add: initial_form_def)
  then have run: "length (companies (form_run ops initial_form)) \<ge> 1"
    by (cases "companies (form_run ops initial_form)") auto
  have rem: "length (companies s) > 1 \<longrightarrow>
      length (companies s) - 1 \<le> length (companies (removeCompany i s)) \<and>
      length (companies (removeCompany i s)) \<le> length (companies s)"
    by (auto simp: removeCompany_companies)
  have keep: "length (companies s) \<le> 1 \<longrightarrow> removeCompany i s = s"
    by (simp add: removeCompany_def)
  show ?thesis
    using run rem keep addCompany_length[of s] updateCompany_length[of i f v s]
    by (simp add: initial_form_def)
qed

theorem companies_never_empty_witness:
  "length (companies (form_run [AddCompany, RemoveCompany 0, RemoveCompany 0,
                                 UpdateCompany 0 Name (js ''Acme'')] initial_form)) \<ge> 1 \<and>
   length (companies initial_form) \<le> 1 \<and>
   removeCompany 0 initial_form = initial_form \<and>
   length (companies (addCompany initial_form)) > 1 \<and>
   1 \<le> length (companies (removeCompany 0 (addCompany initial_form))) \<and>
   length (companies (removeCompany 0 (addCompany initial_form))) \<le> 2"
proof -
  have small: "length (companies initial_form) \<le> 1"
    by (simp add: initial_form_def)
  have big: "length (companies (addCompany initial_form)) = 2"
    by (simp add: initial_form_def addCompany_def)
  show ?thesis
    using small big
      companies_never_empty[of "addCompany initial_form" 0 Name "[]"
        "[AddCompany, RemoveCompany 0, RemoveCompany 0, UpdateCompany 0 Name (js ''Acme'')]"]
      companies_never_empty[of "initial_form" 0 Name "[]" "[]"]
    by simp
qed


section \<open>The batch page's WebSocket session\<close>

lemma needles_nonempty:
  "js ''Collecting high-quality data'' \<noteq> []" "js ''Quantum encoding'' \<noteq> []"
  "js ''parallel processing'' \<noteq> []" "js ''Generating quantum-enhanced'' \<noteq> []"
  "js ''completed'' \<noteq> []"
  by (simp_all add: js_def)


lemma extract_phase_throws:
  "js_truthy m \<Longrightarrow> \<not> has_includes m \<Longrightarrow> extract_phase m s = None"
  by (cases m) (simp_all add: extract_phase_def)

lemma extract_phase_falsy:
  "\<not> js_truthy m \<Longrightarrow> extract_phase m s = Some (matched_phase m s)"
  by (cases m) (simp_all add: extract_phase_def matched_phase_def needles_nonempty)

lemma extract_phase_includes:
  "has_includes m \<Longrightarrow> extract_phase m s = Some (matched_phase m s)"
proof (cases "js_truthy m")
  case False
  then show ?thesis by (rule extract_phase_falsy)
next
  case True
  assume "has_includes m"
  then obtain b1 b2 b3 b4 b5 where
    "call_includes m (js ''Collecting high-quality data'') = Some b1"
    "call_includes m (js ''Quantum encoding'') = Some b2"
    "call_includes m (js ''parallel processing'') = Some b3"
    "call_includes m (js ''Generating quantum-enhanced'') = Some b4"
    "call_includes m (js ''completed'') = Some b5"
    by (cases m) simp_all
  then show ?thesis using True
    by (simp add: extract_phase_def matched_phase_def)
qed

lemma extract_phase_ok:
  "\<not> (js_truthy m \<and> \<not> has_includes m) \<Longrightarrow> extract_phase m s = Some (matched_phase m s)"
  using extract_phase_falsy extract_phase_includes by blast

lemma matched_phase_frame:
  "pg_isResearching (matched_phase m s) = pg_isResearching s"
  "pg_results (matched_phase m s) = pg_results s"
  "pg_error (matched_phase m s) = pg_error s"
  "pg_status (matched_phase m s) = pg_status s"
  "pg_message (matched_phase m s) = pg_message s"
  "pg_wsRef (matched_phase m s) = pg_wsRef s"
  "pg_effects (matched_phase m s) = pg_effects s"
  by (simp_all add: matched_phase_def)

lemma msg_throws_not_null: "msg_throws data \<Longrightarrow> data \<noteq> JNull \<and> data \<noteq> JUndefined"
  by (auto simp: msg_throws_def msg_field_def)

lemma onmessage_throws:
  assumes "msg_throws data"
  shows "ws_onmessage (Some data) s =
           s\<lparr>pg_status := js_or (status_field data) (JStr (js ''processing'')),
             pg_message := js_or (msg_field data) (JStr [])\<rparr>"
  using assms msg_throws_not_null[OF assms]
  by (simp add: ws_onmessage_def Let_def msg_throws_def msg_field_def status_field_def
      extract_phase_throws)

lemma onmessage_ok:
  assumes "\<not> msg_throws data" "data \<noteq> JNull" "data \<noteq> JUndefined"
  shows "ws_onmessage (Some data) s =
           (if status_field data = JStr (js ''completed'')
            then (after_phase data s)\<lparr>pg_isResearching := False,
                   pg_results := result_field data, pg_progress := 100\<rparr>
            else if status_field data = JStr (js ''failed'') \<or> status_field data = JStr (js ''error'')
            then (after_phase data s)\<lparr>pg_isResearching := False,
                   pg_error := js_or (msg_field data) (JStr (js ''Analysis failed''))\<rparr>
            else after_phase data s)"
proof -
  have "\<not> (js_truthy (js_field data (js ''message'')) \<and> \<not> has_includes (js_field data (js ''message'')))"
    using assms(1) by (simp add: msg_throws_def msg_field_def)
  then have ph: "extract_phase (js_field data (js ''message'')) t =
      Some (matched_phase (js_field data (js ''message'')) t)" for t
    by (rule extract_phase_ok)
  show ?thesis
    using assms(2,3)
    by (simp add: ws_onmessage_def Let_def ph after_phase_def msg_field_def status_field_def
        result_field_def)
qed

lemma onmessage_null: "ws_onmessage (Some JNull) s = s" "ws_onmessage (Some JUndefined) s = s"
  "ws_onmessage None s = s"
  by (simp_all add: ws_onmessage_def)

lemma fields_null:
  "status_field JNull = JUndefined" "msg_field JNull = JUndefined"
  "status_field JUndefined = JUndefined" "msg_field JUndefined = JUndefined"
  by (simp_all add: status_field_def msg_field_def)

lemma after_phase_fields:
  "pg_currentPhase (after_phase data s) = pg_currentPhase (matched_phase (msg_field data) s)"
  "pg_progress (after_phase data s) = pg_progress (matched_phase (msg_field data) s)"
  "pg_isResearching (after_phase data s) = pg_isResearching s"
  "pg_results (after_phase data s) = pg_results s"
  "pg_error (after_phase data s) = pg_error s"
  "pg_wsRef (after_phase data s) = pg_wsRef s"
  "pg_effects (after_phase data s) = pg_effects s"
  by (simp_all add: after_phase_def matched_phase_def)

lemma onmessage_phase:
  "pg_currentPhase (ws_onmessage (Some data) s) =
     (if msg_throws data then pg_currentPhase s
      else pg_currentPhase (matched_phase (msg_field data) s))"
proof (cases "msg_throws data")
  case True
  then show ?thesis by (simp add: onmessage_throws)
next
  case False
  show ?thesis
  proof (cases "data = JNull \<or> data = JUndefined")
    case True
    then show ?thesis using False
      by (auto simp: onmessage_null matched_phase_def fields_null)
  next
    case nn: False
    then show ?thesis using False
      by (simp add: onmessage_ok after_phase_fields)
  qed
qed

lemma onmessage_progress:
  "pg_progress (ws_onmessage (Some data) s) =
     (if msg_throws data then pg_progress s
      else if status_field data = JStr (js ''completed'') then 100
      else pg_progress (matched_phase (msg_field data) s))"
proof (cases "msg_throws data")
  case True
  then show ?thesis by (simp add: onmessage_throws)
next
  case False
  show ?thesis
  proof (cases "data = JNull \<or> data = JUndefined")
    case True
    then show ?thesis using False
      by (auto simp: onmessage_null matched_phase_def fields_null)
  next
    case nn: False
    then show ?thesis using False
      by (simp add: onmessage_ok after_phase_fields)
  qed
qed

lemma throws_no_match: "msg_throws data \<Longrightarrow> \<not> msg_has data needle"
  by (cases "msg_field data") (simp_all add: msg_throws_def msg_has_def)

lemma example_fields:
  "msg_field encoding_msg = JStr (js ''Quantum encoding of parallel processing inputs'')"
  "status_field encoding_msg = JStr (js ''processing'')"
  "msg_field completed_encoding_msg = JStr (js ''Quantum encoding'')"
  "status_field completed_encoding_msg = JStr (js ''completed'')"
  "msg_field completed_plain_msg = JStr (js ''done'')"
  "status_field completed_plain_msg = JStr (js ''completed'')"
  "result_field completed_plain_msg = JNum (Finite 7)"
  "msg_field failed_msg = JUndefined"
  "status_field failed_msg = JStr (js ''failed'')"
  "msg_field failed_number_msg = JNum (Finite 5)"
  "status_field failed_number_msg = JStr (js ''failed'')"
  by (simp_all add: msg_field_def status_field_def result_field_def encoding_msg_def
      completed_encoding_msg_def completed_plain_msg_def failed_msg_def failed_number_msg_def
      js_def)

text \<open>
  C2 (amended). For every parsed WebSocket message the phase is decided by the first of
  the five texts, in the source's order, that the message field contains (as a substring
  when the field is a string, as an element when it is an array), and is left as it was
  when none matches. The progress is the matching value (20, 40, 60, 80, 100), or left
  as it was when none matches, unless the message's status is \<^verbatim>\<open>completed\<close>: then,
  provided the phase block does not throw, the progress is 100 whatever the text says.
\<close>

theorem onmessage_phase_progress:
  fixes data :: js_value and s :: page_state
  defines "s' \<equiv> ws_onmessage (Some data) s"
  defines "live \<equiv> status_field data \<noteq> JStr (js ''completed'')"
  shows
  "(msg_has data ''Collecting high-quality data'' \<longrightarrow>
      pg_currentPhase s' = js ''data_collection'' \<and> (live \<longrightarrow> pg_progress s' = 20)) \<and>
   (\<not> msg_has data ''Collecting high-quality data'' \<and> msg_has data ''Quantum encoding'' \<longrightarrow>
      pg_currentPhase s' = js ''quantum_encoding'' \<and> (live \<longrightarrow> pg_progress s' = 40)) \<and>
   (\<not> msg_has data ''Collecting high-quality data'' \<and> \<not> msg_has data ''Quantum encoding'' \<and>
    msg_has data ''parallel processing'' \<longrightarrow>
      pg_currentPhase s' = js ''quantum_processing'' \<and> (live \<longrightarrow> pg_progress s' = 60)) \<and>
   (\<not> msg_has data ''Collecting high-quality data'' \<and> \<not> msg_has data ''Quantum encoding'' \<and>
    \<not> msg_has data ''parallel processing'' \<and> msg_has data ''Generating quantum-enhanced'' \<longrightarrow>
      pg_currentPhase s' = js ''report_generation'' \<and> (live \<longrightarrow> pg_progress s' = 80)) \<and>
   (\<not> msg_has data ''Collecting high-quality data'' \<and> \<not> msg_has data ''Quantum encoding'' \<and>
    \<not> msg_has data ''parallel processing'' \<and> \<not> msg_has data ''Generating quantum-enhanced'' \<and>
    msg_has data ''completed'' \<longrightarrow>
      pg_currentPhase s' = js ''knowledge_base'' \<and> pg_progress s' = 100) \<and>
   (\<not> msg_has data ''Collecting high-quality data'' \<and> \<not> msg_has data ''Quantum encoding'' \<and>
    \<not> msg_has data ''parallel processing'' \<and> \<not> msg_has data ''Generating quantum-enhanced'' \<and>
    \<not> msg_has data ''completed'' \<longrightarrow>
      pg_currentPhase s' = pg_currentPhase s \<and> (live \<longrightarrow> pg_progress s' = pg_progress s)) \<and>
   (\<not> live \<and> \<not> msg_throws data \<longrightarrow> pg_progress s' = 100)"
proof (cases "msg_throws data")
  case True
  then show ?thesis
    unfolding s'_def live_def
    by (simp add: onmessage_phase onmessage_progress throws_no_match)
next
  case False
  then show ?thesis
    unfolding s'_def live_def
    by (simp add: onmessage_phase onmessage_progress msg_has_def matched_phase_def)
qed

theorem onmessage_phase_progress_witness:
  "\<not> msg_has encoding_msg ''Collecting high-quality data'' \<and>
   msg_has encoding_msg ''Quantum encoding'' \<and>
   msg_has encoding_msg ''parallel processing'' \<and>
   status_field encoding_msg \<noteq> JStr (js ''completed'') \<and>
   pg_currentPhase (ws_onmessage (Some encoding_msg) researching_page) = js ''quantum_encoding'' \<and>
   pg_progress (ws_onmessage (Some encoding_msg) researching_page) = 40 \<and>
   status_field completed_plain_msg = JStr (js ''completed'') \<and>
   \<not> msg_throws completed_plain_msg \<and>
   pg_progress (ws_onmessage (Some completed_plain_msg) researching_page) = 100"
proof -
  have m: "\<not> msg_has encoding_msg ''Collecting high-quality data''"
    "msg_has encoding_msg ''Quantum encoding''" "msg_has encoding_msg ''parallel processing''"
    by (simp_all add: msg_has_def example_fields, simp_all add: js_def)
  have st: "status_field encoding_msg \<noteq> JStr (js ''completed'')"
    by (simp add: example_fields, simp add: js_def)
  have th: "status_field completed_plain_msg = JStr (js ''completed'')"
    "\<not> msg_throws completed_plain_msg"
    by (simp_all add: msg_throws_def example_fields)
  note a = onmessage_phase_progress[of encoding_msg researching_page]
  note b = onmessage_phase_progress[of completed_plain_msg researching_page]
  have c1: "pg_currentPhase (ws_onmessage (Some encoding_msg) researching_page) = js ''quantum_encoding''"
    "pg_progress (ws_onmessage (Some encoding_msg) researching_page) = 40"
    using a m st by simp_all
  have c2: "pg_progress (ws_onmessage (Some completed_plain_msg) researching_page) = 100"
    using b th by simp
  show ?thesis
    by (intro conjI) (rule m st th c1 c2)+
qed

text \<open>
  C2, counterexample. A message whose status is \<^verbatim>\<open>completed\<close> and that contains
  \<^verbatim>\<open>Quantum encoding\<close> ends with progress 100, not 40, and one that matches no text
  changes the progress from 0 to 100.
\<close>

theorem completed_progress_counterexample:
  "msg_has completed_encoding_msg ''Quantum encoding'' \<and>
   \<not> msg_has completed_encoding_msg ''Collecting high-quality data'' \<and>
   pg_progress (ws_onmessage (Some completed_encoding_msg) researching_page) = 100 \<and>
   pg_progress (ws_onmessage (Some completed_encoding_msg) researching_page) \<noteq> 40 \<and>
   \<not> msg_has completed_plain_msg ''Collecting high-quality data'' \<and>
   \<not> msg_has completed_plain_msg ''Quantum encoding'' \<and>
   \<not> msg_has completed_plain_msg ''parallel processing'' \<and>
   \<not> msg_has completed_plain_msg ''Generating quantum-enhanced'' \<and>
   \<not> msg_has completed_plain_msg ''completed'' \<and>
   pg_progress researching_page = 0 \<and>
   pg_progress (ws_onmessage (Some completed_plain_msg) researching_page) = 100"
proof -
  have "msg_has completed_encoding_msg ''Quantum encoding''"
    "\<not> msg_has completed_encoding_msg ''Collecting high-quality data''"
    by (simp_all add: msg_has_def example_fields, simp_all add: js_def)
  moreover have "\<not> msg_has completed_plain_msg ''Collecting high-quality data''"
    "\<not> msg_has completed_plain_msg ''Quantum encoding''"
    "\<not> msg_has completed_plain_msg ''parallel processing''"
    "\<not> msg_has completed_plain_msg ''Generating quantum-enhanced''"
    "\<not> msg_has completed_plain_msg ''completed''"
    by (simp_all add: msg_has_def example_fields, simp_all add: js_def)
  moreover have "\<not> msg_throws completed_encoding_msg" "\<not> msg_throws completed_plain_msg"
    by (simp_all add: msg_throws_def example_fields)
  then have "pg_progress (ws_onmessage (Some completed_encoding_msg) researching_page) = 100"
    "pg_progress (ws_onmessage (Some completed_plain_msg) researching_page) = 100"
    by (simp_all add: onmessage_progress example_fields)
  moreover have "pg_progress researching_page = 0"
    by (simp add: researching_page_def)
  ultimately show ?thesis by simp
qed




lemma onmessage_effects:
  "pg_effects (ws_onmessage ev s) = pg_effects s \<and> pg_wsRef (ws_onmessage ev s) = pg_wsRef s"
proof (cases ev)
  case None
  then show ?thesis by (simp add: onmessage_null)
next
  case (Some data)
  show ?thesis
  proof (cases "msg_throws data")
    case True
    then show ?thesis using Some by (simp add: onmessage_throws)
  next
    case False
    show ?thesis
    proof (cases "data = JNull \<or> data = JUndefined")
      case True
      then show ?thesis using Some by (auto simp: onmessage_null)
    next
      case nn: False
      then show ?thesis using Some False by (simp add: onmessage_ok after_phase_fields)
    qed
  qed
qed

lemma ws_handle_effects:
  "pg_effects (ws_handle e s) = pg_effects s \<and> pg_wsRef (ws_handle e s) = pg_wsRef s"
  by (cases e) (simp_all add: onmessage_effects ws_onopen_def ws_onerror_def ws_onclose_def)

lemma ws_run_effects:
  "pg_effects (ws_run es s) = pg_effects s \<and> pg_wsRef (ws_run es s) = pg_wsRef s"
  by (induction es arbitrary: s) (simp_all add: ws_handle_effects)

text \<open>
  C4 (amended). The reconnection constants are \<^verbatim>\<open>MAX_RECONNECT_ATTEMPTS = 3\<close> and
  \<^verbatim>\<open>RECONNECT_DELAY = 2000\<close>. The batch page's WebSocket session neither reconnects
  nor polls: on closure of the transport nothing changes, on a transport error only the
  error text \<^verbatim>\<open>WebSocket connection error\<close> is stored, and over any sequence of socket
  events (open, message, error, close) the page has no effect on the browser: no
  WebSocket is constructed, no timer scheduled, no request issued, and \<^verbatim>\<open>wsRef\<close> keeps
  the socket it held.
\<close>

theorem transport_loss_no_reconnect:
  "MAX_RECONNECT_ATTEMPTS = 3 \<and> RECONNECT_DELAY = 2000 \<and>
   ws_onclose s = s \<and>
   ws_onerror s = s\<lparr>pg_error := JStr (js ''WebSocket connection error'')\<rparr> \<and>
   pg_effects (ws_run evs s) = pg_effects s \<and>
   pg_wsRef (ws_run evs s) = pg_wsRef s"
  by (simp add: MAX_RECONNECT_ATTEMPTS_def RECONNECT_DELAY_def ws_onclose_def ws_onerror_def
      ws_run_effects)


text \<open>
  C4, counterexample. With the socket of job \<open>j1\<close> open, an error followed by the
  closure, and the closure alone, leave the page's effects what they were: that socket is
  the only one ever constructed, and no timer or further request follows. The closure
  leaves the whole state as it was.
\<close>

theorem transport_loss_counterexample:
  "pg_effects researching_page =
     [Fetch (js ''http://host/research/quantum-batch''),
      NewWebSocket (js ''ws://host/research/ws/j1'')] \<and>
   pg_effects (ws_run [OnError, OnClose] researching_page) =
     [Fetch (js ''http://host/research/quantum-batch''),
      NewWebSocket (js ''ws://host/research/ws/j1'')] \<and>
   pg_effects (ws_run [OnClose] researching_page) =
     [Fetch (js ''http://host/research/quantum-batch''),
      NewWebSocket (js ''ws://host/research/ws/j1'')] \<and>
   ws_onclose researching_page = researching_page"
  by (simp add: ws_onclose_def ws_onerror_def researching_page_def)


section \<open>Polling and reset\<close>




text \<open>
  C10. \<^verbatim>\<open>resetResearch\<close> sets \<^verbatim>\<open>isResetting\<close> and schedules its callback after 300 ms.
  Whatever the state \<open>s'\<close> is when the callback runs, afterwards status, output, error and
  pdfUrl are null, isComplete is false, currentPhase is null, the research state is the
  idle value (status \<^verbatim>\<open>idle\<close>, empty message, no queries, no streaming queries, the four
  briefing flags false, no counts), the remaining cells have their fixed initial values,
  and the result is the same for any other state \<open>s''\<close>: nothing of the state before
  survives in the cells that \<^verbatim>\<open>resetResearch\<close> controls.
\<close>

theorem resetResearch_idle:
  fixes s s' s'' :: reset_cells
  defines "after \<equiv> snd (snd (resetResearch s)) s'"
  shows
  "r_isResetting (fst (resetResearch s)) \<and>
   fst (snd (resetResearch s)) = 300 \<and>
   r_status after = None \<and> r_output after = None \<and> r_error after = None \<and>
   r_pdfUrl after = None \<and> \<not> r_isComplete after \<and> r_currentPhase after = None \<and>
   r_researchState after =
     \<lparr>rs_status = js ''idle'', rs_message = [], rs_queries = [], rs_streamingQueries = [],
      rs_briefingStatus = \<lparr>bs_company = False, bs_industry = False,
                            bs_financial = False, bs_news = False\<rparr>,
      rs_enrichmentCounts = None, rs_docCounts = None\<rparr> \<and>
   \<not> r_isSearchPhase after \<and> \<not> r_shouldShowQueries after \<and>
   r_isQueriesExpanded after \<and> r_isBriefingExpanded after \<and> r_isEnrichmentExpanded after \<and>
   \<not> r_isResetting after \<and> \<not> r_hasScrolledToStatus after \<and>
   snd (snd (resetResearch s)) s'' = after"
  unfolding after_def
  by (simp add: resetResearch_def reset_callback_def)


section \<open>The queries panel\<close>

lemma completed_queries_append:
  "completed_queries (xs @ ys) = completed_queries xs @ completed_queries ys"
  by (induction xs rule: completed_queries.induct) auto

lemma completed_queries_streaming:
  "completed_queries (map (\<lambda>(key, query). StreamingRow key query) es) = []"
  by (induction es) auto

lemma completed_queries_completed:
  "completed_queries (map (\<lambda>(query, idx). CompletedRow idx query) ps) = map fst ps"
  by (induction ps) auto

lemma streaming_rows_append:
  "streaming_rows (xs @ ys) = streaming_rows xs @ streaming_rows ys"
  by (induction xs rule: streaming_rows.induct) auto

lemma streaming_rows_streaming:
  "streaming_rows (map (\<lambda>(key, query). StreamingRow key query) es) = es"
  by (induction es) auto

lemma streaming_rows_completed:
  "streaming_rows (map (\<lambda>(query, idx). CompletedRow idx query) ps) = []"
  by (induction ps) auto

lemma completed_queries_section:
  "completed_queries (category_section c sq qs) = filter (\<lambda>q. startsWith (q_category q) c) qs"
  by (simp add: category_section_def completed_queries_append completed_queries_streaming
      completed_queries_completed map_fst_indexed)

lemma streaming_rows_section:
  "streaming_rows (category_section c sq qs) = filter (\<lambda>(key, q). startsWith key c) sq"
  by (simp add: category_section_def streaming_rows_append streaming_rows_streaming
      streaming_rows_completed)

lemma categories_prefix_free:
  "c0 \<in> set CATEGORIES \<Longrightarrow> c \<in> set CATEGORIES \<Longrightarrow> startsWith c0 c \<longleftrightarrow> c = c0"
  by (auto simp: CATEGORIES_def js_def)

lemma section_of_valid:
  assumes "c0 \<in> set CATEGORIES" "c \<in> set CATEGORIES"
  shows "filter (\<lambda>q. q_category q = c0) (completed_queries (category_section c sq qs)) =
         (if c = c0 then filter (\<lambda>q. q_category q = c0) qs else [])"
proof -
  have "filter (\<lambda>q. q_category q = c0) (filter (\<lambda>q. startsWith (q_category q) c) qs)
        = filter (\<lambda>q. q_category q = c0 \<and> startsWith c0 c) qs"
    by (induction qs) auto
  also have "\<dots> = (if c = c0 then filter (\<lambda>q. q_category q = c0) qs else [])"
    using categories_prefix_free[OF assms] by simp
  finally show ?thesis by (simp add: completed_queries_section)
qed

lemma streaming_first:
  assumes "i < length (category_section c sq qs)" "j < length (category_section c sq qs)"
    "is_streaming (category_section c sq qs ! i)" "\<not> is_streaming (category_section c sq qs ! j)"
  shows "i < j"
proof -
  let ?A = "map (\<lambda>(key, query). StreamingRow key query) (filter (\<lambda>(key, query). startsWith key c) sq)"
  let ?B = "map (\<lambda>(query, idx). CompletedRow idx query) (indexed (filter (\<lambda>q. startsWith (q_category q) c) qs))"
  have sec: "category_section c sq qs = ?A @ ?B" by (simp add: category_section_def)
  have A: "\<forall>r \<in> set ?A. is_streaming r" by auto
  have B: "\<forall>r \<in> set ?B. \<not> is_streaming r" by auto
  have "i < length ?A"
  proof (rule ccontr)
    assume "\<not> i < length ?A"
    then have "(?A @ ?B) ! i = ?B ! (i - length ?A)" "i - length ?A < length ?B"
      using assms(1) sec by (auto simp: nth_append)
    then have "\<not> is_streaming ((?A @ ?B) ! i)" using B nth_mem by metis
    then show False using assms(3) sec by simp
  qed
  moreover have "\<not> j < length ?A"
  proof
    assume "j < length ?A"
    then have "(?A @ ?B) ! j = ?A ! j" by (simp add: nth_append)
    then have "is_streaming ((?A @ ?B) ! j)" using A \<open>j < length ?A\<close> nth_mem by metis
    then show False using assms(4) sec by simp
  qed
  ultimately show ?thesis by simp
qed

text \<open>
  C8. The panel renders one section per category, in the fixed order. A query whose
  category is one of the four appears, as often and in the order it stands in the
  queries list, among the completed rows of the section of its category, and in no other
  section. In every section each streaming row (the entries whose key starts with the
  category) comes before each completed row (the queries whose category starts with it).
  The collapsed summary shows the length of the queries list and the four categories.
\<close>

theorem queries_panel:
  "map fst (query_sections sq queries) = CATEGORIES \<and>
   map snd (query_sections sq queries) = map (\<lambda>c. category_section c sq queries) CATEGORIES \<and>
   (\<forall>c0 \<in> set CATEGORIES. \<forall>c \<in> set CATEGORIES.
      filter (\<lambda>q. q_category q = c0) (completed_queries (category_section c sq queries)) =
      (if c = c0 then filter (\<lambda>q. q_category q = c0) queries else [])) \<and>
   (\<forall>c i j. i < length (category_section c sq queries) \<and>
            j < length (category_section c sq queries) \<and>
            is_streaming (category_section c sq queries ! i) \<and>
            \<not> is_streaming (category_section c sq queries ! j) \<longrightarrow> i < j) \<and>
   (\<forall>c. streaming_rows (category_section c sq queries) =
          filter (\<lambda>(key, q). startsWith key c) sq) \<and>
   (\<forall>c. completed_queries (category_section c sq queries) =
          filter (\<lambda>q. startsWith (q_category q) c) queries) \<and>
   collapsed_summary False queries = Some (length queries, 4)"
proof -
  have 1: "map fst (query_sections sq queries) = CATEGORIES"
    by (simp add: query_sections_def comp_def)
  have 2: "map snd (query_sections sq queries) = map (\<lambda>c. category_section c sq queries) CATEGORIES"
    by (simp add: query_sections_def comp_def)
  have 3: "\<forall>c0 \<in> set CATEGORIES. \<forall>c \<in> set CATEGORIES.
      filter (\<lambda>q. q_category q = c0) (completed_queries (category_section c sq queries)) =
      (if c = c0 then filter (\<lambda>q. q_category q = c0) queries else [])"
    by (intro ballI) (rule section_of_valid)
  have 4: "\<forall>c i j. i < length (category_section c sq queries) \<and>
            j < length (category_section c sq queries) \<and>
            is_streaming (category_section c sq queries ! i) \<and>
            \<not> is_streaming (category_section c sq queries ! j) \<longrightarrow> i < j"
    by (intro allI impI) (elim conjE, rule streaming_first)
  have 5: "\<forall>c. streaming_rows (category_section c sq queries) =
          filter (\<lambda>(key, q). startsWith key c) sq"
    by (intro allI) (rule streaming_rows_section)
  have 6: "\<forall>c. completed_queries (category_section c sq queries) =
          filter (\<lambda>q. startsWith (q_category q) c) queries"
    by (intro allI) (rule completed_queries_section)
  have 7: "collapsed_summary False queries = Some (length queries, 4)"
    by (simp add: collapsed_summary_def CATEGORIES_def)
  show ?thesis
    by (intro conjI) (rule 1 2 3 4 5 6 7)+
qed

theorem queries_panel_witness:
  "js ''company'' \<in> set CATEGORIES \<and> js ''news'' \<in> set CATEGORIES \<and>
   filter (\<lambda>q. q_category q = js ''company'')
     (completed_queries (category_section (js ''company'') [(js ''company_2'', sq_company)]
        [q_company, q_news, q_company])) = [q_company, q_company] \<and>
   filter (\<lambda>q. q_category q = js ''company'')
     (completed_queries (category_section (js ''news'') [(js ''company_2'', sq_company)]
        [q_company, q_news, q_company])) = []"
proof -
  have c: "js ''company'' \<in> set CATEGORIES" and n: "js ''news'' \<in> set CATEGORIES"
    by (simp_all add: CATEGORIES_def)
  have ne: "js ''news'' \<noteq> js ''company''" by (simp add: js_def)
  note panel = queries_panel[of "[(js ''company_2'', sq_company)]" "[q_company, q_news, q_company]"]
  note sec = panel[THEN conjunct2, THEN conjunct2, THEN conjunct1]
  have cats: "q_category q_company = js ''company''" "q_category q_news = js ''news''"
    by (simp_all add: q_company_def q_news_def)
  have "filter (\<lambda>q. q_category q = js ''company'')
     (completed_queries (category_section (js ''company'') [(js ''company_2'', sq_company)]
        [q_company, q_news, q_company])) = [q_company, q_company]"
    using sec[THEN bspec, OF c, THEN bspec, OF c] cats ne by simp
  moreover have "filter (\<lambda>q. q_category q = js ''company'')
     (completed_queries (category_section (js ''news'') [(js ''company_2'', sq_company)]
        [q_company, q_news, q_company])) = []"
    using sec[THEN bspec, OF c, THEN bspec, OF n] ne by simp
  ultimately show ?thesis using c n by simp
qed


section \<open>The Google Maps script loader\<close>

lemma inv_initial: "loader_inv (initial_loader f a k)"
  by (simp add: loader_inv_def idle_def initial_loader_def pending_def resolved_def)

lemma settle_fields [simp]:
  "isScriptLoaded (settle p v s) = isScriptLoaded s"
  "isScriptLoading (settle p v s) = isScriptLoading s"
  "scriptLoadPromise (settle p v s) = scriptLoadPromise s"
  "initGoogleMapsCallback (settle p v s) = initGoogleMapsCallback s"
  "appended (settle p v s) = appended s"
  "checkIntervals (settle p v s) = checkIntervals s"
  "timeouts (settle p v s) = timeouts s"
  "foreign_script (settle p v s) = foreign_script s"
  "places_available (settle p v s) = places_available s"
  "apiKey_defined (settle p v s) = apiKey_defined s"
  by (simp_all add: settle_def)

lemma pending_settle [simp]:
  "v \<noteq> Pending \<Longrightarrow> pending (settle p v s) q \<longleftrightarrow> pending s q \<and> q \<noteq> p"
  by (auto simp: pending_def settle_def nth_list_update)

lemma resolved_settle_Resolved [simp]:
  "resolved (settle p Resolved s) q \<longleftrightarrow> resolved s q \<or> (q = p \<and> pending s p)"
  by (auto simp: pending_def resolved_def settle_def nth_list_update)

lemma resolved_settle_Rejected [simp]:
  "resolved (settle p Rejected s) q \<longleftrightarrow> resolved s q"
  by (auto simp: pending_def resolved_def settle_def nth_list_update)

lemma pending_frame [simp]:
  "pending (s\<lparr>isScriptLoaded := a\<rparr>) = pending s"
  "pending (s\<lparr>isScriptLoading := a\<rparr>) = pending s"
  "pending (s\<lparr>scriptLoadPromise := b\<rparr>) = pending s"
  "pending (s\<lparr>initGoogleMapsCallback := b\<rparr>) = pending s"
  "pending (s\<lparr>appended := c\<rparr>) = pending s"
  "pending (s\<lparr>checkIntervals := d\<rparr>) = pending s"
  "pending (s\<lparr>timeouts := d\<rparr>) = pending s"
  "pending (s\<lparr>places_available := a\<rparr>) = pending s"
  by (simp_all add: pending_def fun_eq_iff)

lemma resolved_frame [simp]:
  "resolved (s\<lparr>isScriptLoaded := a\<rparr>) = resolved s"
  "resolved (s\<lparr>isScriptLoading := a\<rparr>) = resolved s"
  "resolved (s\<lparr>scriptLoadPromise := b\<rparr>) = resolved s"
  "resolved (s\<lparr>initGoogleMapsCallback := b\<rparr>) = resolved s"
  "resolved (s\<lparr>appended := c\<rparr>) = resolved s"
  "resolved (s\<lparr>checkIntervals := d\<rparr>) = resolved s"
  "resolved (s\<lparr>timeouts := d\<rparr>) = resolved s"
  "resolved (s\<lparr>places_available := a\<rparr>) = resolved s"
  by (simp_all add: resolved_def fun_eq_iff)

lemma pending_alloc [simp]:
  "pending (s\<lparr>promises := promises s @ [Pending]\<rparr>) q \<longleftrightarrow> pending s q \<or> q = length (promises s)"
  by (auto simp: pending_def nth_append)

lemma resolved_alloc [simp]:
  "resolved (s\<lparr>promises := promises s @ [Pending]\<rparr>) q \<longleftrightarrow> resolved s q"
  by (auto simp: resolved_def nth_append)

lemma pending_bound: "pending s p \<Longrightarrow> p < length (promises s)"
  by (simp add: pending_def)


lemma callback_succeeded: "succeeded s \<Longrightarrow> succeeded (callback_body p s)"
  by (simp add: succeeded_def callback_body_def)

lemma callback_loading:
  "loading_mode s p \<Longrightarrow> places_available s \<Longrightarrow> succeeded (callback_body p s)"
  by (simp add: succeeded_def loading_mode_def callback_body_def)

lemma callback_idle:
  "idle s \<Longrightarrow> places_available s \<Longrightarrow> succeeded (callback_body p s)"
  by (simp add: succeeded_def idle_def callback_body_def)

lemma tick_succeeded: "succeeded s \<Longrightarrow> succeeded (interval_tick p s)"
  by (simp add: succeeded_def interval_tick_def)

lemma tick_loading:
  "loading_mode s p \<Longrightarrow> q \<in> checkIntervals s \<Longrightarrow>
   succeeded (interval_tick q s) \<or> loading_mode (interval_tick q s) p"
  by (auto simp: succeeded_def loading_mode_def interval_tick_def)

lemma timeout_succeeded:
  "succeeded s \<Longrightarrow> succeeded (timeout_fire p (s\<lparr>timeouts := timeouts s - {p}\<rparr>))"
  by (simp add: succeeded_def timeout_fire_def)

lemma timeout_loading:
  "loading_mode s p \<Longrightarrow> q \<in> timeouts s \<Longrightarrow>
   idle (timeout_fire q (s\<lparr>timeouts := timeouts s - {q}\<rparr>))"
  by (auto simp: idle_def loading_mode_def timeout_fire_def)


lemma apiReady_modes:
  "succeeded s \<Longrightarrow> succeeded (s\<lparr>places_available := True\<rparr>)"
  "loading_mode s p \<Longrightarrow> loading_mode (s\<lparr>places_available := True\<rparr>) p"
  "idle s \<Longrightarrow> idle (s\<lparr>places_available := True\<rparr>)"
  by (simp_all add: succeeded_def loading_mode_def idle_def)

lemma Loading_update_Loaded:
  "(q, Loading) \<in> set (xs[i := (a, Loaded)]) \<Longrightarrow> (q, Loading) \<in> set xs"
  by (metis in_set_conv_nth length_list_update nth_list_update_eq nth_list_update_neq
      prod.inject script_status.distinct(1))

lemma scriptLoads_modes:
  "succeeded s \<Longrightarrow> succeeded (s\<lparr>appended := (appended s)[i := (a, Loaded)]\<rparr>)"
  "loading_mode s p \<Longrightarrow> loading_mode (s\<lparr>appended := (appended s)[i := (a, Loaded)]\<rparr>) p"
  "idle s \<Longrightarrow> idle (s\<lparr>appended := (appended s)[i := (a, Loaded)]\<rparr>)"
  by (auto simp: succeeded_def loading_mode_def idle_def dest!: Loading_update_Loaded)

lemma scriptFails_succeeded:
  "succeeded s \<Longrightarrow>
   succeeded (script_onerror a (s\<lparr>appended := (appended s)[i := (a, Failed)]\<rparr>))"
  by (simp add: succeeded_def script_onerror_def)

lemma single_script:
  assumes "length xs \<le> 1" "i < length xs"
  shows "xs[i := y] = [y]"
  using assms by (cases xs) auto

lemma scriptFails_loading:
  assumes "loading_mode s p" "i < length (appended s)" "appended s ! i = (a, Loading)"
    "length (appended s) \<le> 1"
  shows "idle (script_onerror a (s\<lparr>appended := (appended s)[i := (a, Failed)]\<rparr>))"
proof -
  have "(a, Loading) \<in> set (appended s)" using assms(2,3) by (metis nth_mem)
  then have "a = p" "checkIntervals s = {}" "timeouts s = {}"
    using assms(1) by (auto simp: loading_mode_def)
  moreover have "(appended s)[i := (a, Failed)] = [(a, Failed)]"
    using assms(2,4) by (rule single_script[rotated])
  ultimately show ?thesis
    using assms(1)
    by (auto simp: idle_def loading_mode_def script_onerror_def)
qed

lemma scriptFails_idle:
  assumes "idle s" "i < length (appended s)" "appended s ! i = (a, Loading)"
  shows "False"
proof -
  have "(a, Loading) \<in> set (appended s)" using assms(2,3) by (metis nth_mem)
  then show False using assms(1) by (simp add: idle_def)
qed

text \<open>A call.\<close>

lemma call_succeeded: "succeeded s \<Longrightarrow> loadGoogleMapsScript s = (ResolvedPromise, s)"
  by (simp add: succeeded_def loadGoogleMapsScript_def)

lemma call_loading: "loading_mode s p \<Longrightarrow> loadGoogleMapsScript s = (PromiseRef p, s)"
  by (simp add: loading_mode_def loadGoogleMapsScript_def)

lemma executor_appended:
  "length (appended (executor p s)) \<le> max 1 (length (appended s))"
  by (auto simp: executor_def Let_def existingScript_def)

lemma call_appended:
  "length (appended s) \<le> 1 \<Longrightarrow> length (appended (snd (loadGoogleMapsScript s))) \<le> 1"
  using executor_appended[of "length (promises s)"
      "s\<lparr>isScriptLoading := True, promises := promises s @ [Pending]\<rparr>"]
  by (auto simp: loadGoogleMapsScript_def Let_def split: option.splits)

lemma call_idle:
  assumes "idle s"
  shows "succeeded (snd (loadGoogleMapsScript s)) \<or>
         loading_mode (snd (loadGoogleMapsScript s)) (length (promises s)) \<or>
         idle (snd (loadGoogleMapsScript s))"
proof -
  let ?p = "length (promises s)"
  have np: "\<not> pending s ?p" "\<not> resolved s ?p"
    by (simp_all add: pending_def resolved_def)
  have flags: "\<not> isScriptLoaded s" "\<not> isScriptLoading s"
    using assms by (simp_all add: idle_def)
  show ?thesis
  proof (cases "places_available s")
    case api: True
    show ?thesis
    proof (cases "existingScript s")
      case True
      then have "snd (loadGoogleMapsScript s) = s\<lparr>isScriptLoaded := True\<rparr>"
        using flags api by (simp add: loadGoogleMapsScript_def)
      then show ?thesis using assms api by (simp add: succeeded_def idle_def)
    next
      case False
      then show ?thesis
        using assms flags api
        by (auto simp: loadGoogleMapsScript_def Let_def executor_def succeeded_def idle_def
            pending_def resolved_def nth_append settle_def nth_list_update)
    qed
  next
    case napi: False
    show ?thesis
    proof (cases "existingScript s")
      case True
      then show ?thesis
        using assms flags napi
        by (auto simp: loadGoogleMapsScript_def Let_def executor_def existingScript_def
            loading_mode_def idle_def pending_def resolved_def nth_append)
    next
      case nex: False
      show ?thesis
      proof (cases "apiKey_defined s")
        case True
        then show ?thesis
          using assms flags napi nex
          by (auto simp: loadGoogleMapsScript_def Let_def executor_def existingScript_def
              loading_mode_def idle_def pending_def resolved_def nth_append)
      next
        case False
        then show ?thesis
          using assms flags napi nex np
          by (auto simp: loadGoogleMapsScript_def Let_def executor_def existingScript_def
              idle_def pending_def resolved_def nth_append settle_def nth_list_update)
      qed
    qed
  qed
qed

lemma inv_modes:
  assumes "loader_inv s"
  obtains (Succeeded) "succeeded s" | (LoadingMode) p where "loading_mode s p" | (Idle) "idle s"
  using assms by (auto simp: loader_inv_def)

lemma inv_appended: "loader_inv s \<Longrightarrow> length (appended s) \<le> 1"
  by (simp add: loader_inv_def)

lemma loader_invI:
  "length (appended s) \<le> 1 \<Longrightarrow> succeeded s \<or> (\<exists>p. loading_mode s p) \<or> idle s \<Longrightarrow> loader_inv s"
  by (simp add: loader_inv_def)

lemma appended_frame [simp]:
  "appended (callback_body p s) = appended s"
  "appended (interval_tick p s) = appended s"
  "appended (timeout_fire p s) = appended s"
  "appended (script_onerror p s) = appended s"
  by (simp_all add: callback_body_def interval_tick_def timeout_fire_def script_onerror_def Let_def)

lemma inv_Call:
  assumes "loader_inv s"
  shows "loader_inv (snd (loadGoogleMapsScript s))"
proof (rule loader_invI)
  show "length (appended (snd (loadGoogleMapsScript s))) \<le> 1"
    using call_appended[OF inv_appended[OF assms]] .
  show "succeeded (snd (loadGoogleMapsScript s)) \<or>
        (\<exists>p. loading_mode (snd (loadGoogleMapsScript s)) p) \<or>
        idle (snd (loadGoogleMapsScript s))"
    using assms
  proof (cases rule: inv_modes)
    case Succeeded
    then show ?thesis by (simp add: call_succeeded)
  next
    case (LoadingMode p)
    then show ?thesis by (auto simp: call_loading)
  next
    case Idle
    then show ?thesis using call_idle[of s] by blast
  qed
qed

lemma inv_ApiReady:
  assumes "loader_inv s"
  shows "loader_inv (s\<lparr>places_available := True\<rparr>)"
proof (rule loader_invI)
  show "length (appended (s\<lparr>places_available := True\<rparr>)) \<le> 1"
    using inv_appended[OF assms] by simp
  show "succeeded (s\<lparr>places_available := True\<rparr>) \<or>
        (\<exists>p. loading_mode (s\<lparr>places_available := True\<rparr>) p) \<or>
        idle (s\<lparr>places_available := True\<rparr>)"
    using assms by (cases rule: inv_modes) (auto dest: apiReady_modes)
qed

lemma inv_InvokeCallback:
  assumes "loader_inv s" "places_available s" "initGoogleMapsCallback s = Some c"
  shows "loader_inv (callback_body c s)"
proof (rule loader_invI)
  show "length (appended (callback_body c s)) \<le> 1"
    using inv_appended[OF assms(1)] by simp
  have "succeeded (callback_body c s)"
    using assms(1)
  proof (cases rule: inv_modes)
    case Succeeded
    then show ?thesis by (rule callback_succeeded)
  next
    case (LoadingMode p)
    then show ?thesis using assms(2,3)
      by (simp add: succeeded_def loading_mode_def callback_body_def)
  next
    case Idle
    then show ?thesis using assms(2) by (rule callback_idle)
  qed
  then show "succeeded (callback_body c s) \<or> (\<exists>p. loading_mode (callback_body c s) p) \<or>
             idle (callback_body c s)" by simp
qed

lemma inv_ScriptLoads:
  assumes "loader_inv s"
  shows "loader_inv (s\<lparr>appended := (appended s)[i := (a, Loaded)]\<rparr>)"
proof (rule loader_invI)
  show "length (appended (s\<lparr>appended := (appended s)[i := (a, Loaded)]\<rparr>)) \<le> 1"
    using inv_appended[OF assms] by simp
  show "succeeded (s\<lparr>appended := (appended s)[i := (a, Loaded)]\<rparr>) \<or>
        (\<exists>p. loading_mode (s\<lparr>appended := (appended s)[i := (a, Loaded)]\<rparr>) p) \<or>
        idle (s\<lparr>appended := (appended s)[i := (a, Loaded)]\<rparr>)"
    using assms by (cases rule: inv_modes) (auto dest: scriptLoads_modes)
qed

lemma inv_ScriptFails:
  assumes "loader_inv s" "i < length (appended s)" "snd (appended s ! i) = Loading"
  shows "loader_inv (script_onerror (fst (appended s ! i))
                       (s\<lparr>appended := (appended s)[i := (fst (appended s ! i), Failed)]\<rparr>))"
proof (rule loader_invI)
  let ?a = "fst (appended s ! i)"
  have nth: "appended s ! i = (?a, Loading)" using assms(3) by (metis prod.collapse)
  show "length (appended (script_onerror ?a (s\<lparr>appended := (appended s)[i := (?a, Failed)]\<rparr>))) \<le> 1"
    using inv_appended[OF assms(1)] by simp
  show "succeeded (script_onerror ?a (s\<lparr>appended := (appended s)[i := (?a, Failed)]\<rparr>)) \<or>
        (\<exists>p. loading_mode (script_onerror ?a (s\<lparr>appended := (appended s)[i := (?a, Failed)]\<rparr>)) p) \<or>
        idle (script_onerror ?a (s\<lparr>appended := (appended s)[i := (?a, Failed)]\<rparr>))"
    using assms(1)
  proof (cases rule: inv_modes)
    case Succeeded
    then show ?thesis by (simp add: scriptFails_succeeded)
  next
    case (LoadingMode p)
    then show ?thesis
      using scriptFails_loading[OF LoadingMode assms(2) nth inv_appended[OF assms(1)]] by simp
  next
    case Idle
    then show ?thesis using scriptFails_idle[OF Idle assms(2) nth] by simp
  qed
qed

lemma inv_IntervalTick:
  assumes "loader_inv s" "q \<in> checkIntervals s"
  shows "loader_inv (interval_tick q s)"
proof (rule loader_invI)
  show "length (appended (interval_tick q s)) \<le> 1"
    using inv_appended[OF assms(1)] by simp
  show "succeeded (interval_tick q s) \<or> (\<exists>p. loading_mode (interval_tick q s) p) \<or>
        idle (interval_tick q s)"
    using assms(1)
  proof (cases rule: inv_modes)
    case Succeeded
    then show ?thesis by (simp add: tick_succeeded)
  next
    case (LoadingMode p)
    then show ?thesis using tick_loading[OF LoadingMode assms(2)] by blast
  next
    case Idle
    then show ?thesis using assms(2) by (simp add: idle_def)
  qed
qed

lemma inv_TimeoutFires:
  assumes "loader_inv s" "q \<in> timeouts s"
  shows "loader_inv (timeout_fire q (s\<lparr>timeouts := timeouts s - {q}\<rparr>))"
proof (rule loader_invI)
  show "length (appended (timeout_fire q (s\<lparr>timeouts := timeouts s - {q}\<rparr>))) \<le> 1"
    using inv_appended[OF assms(1)] by simp
  show "succeeded (timeout_fire q (s\<lparr>timeouts := timeouts s - {q}\<rparr>)) \<or>
        (\<exists>p. loading_mode (timeout_fire q (s\<lparr>timeouts := timeouts s - {q}\<rparr>)) p) \<or>
        idle (timeout_fire q (s\<lparr>timeouts := timeouts s - {q}\<rparr>))"
    using assms(1)
  proof (cases rule: inv_modes)
    case Succeeded
    then show ?thesis by (simp add: timeout_succeeded)
  next
    case (LoadingMode p)
    then show ?thesis using timeout_loading[OF LoadingMode assms(2)] by simp
  next
    case Idle
    then show ?thesis using assms(2) by (simp add: idle_def)
  qed
qed

lemma inv_step:
  assumes "loader_inv s" "loader_step e s = Some s'"
  shows "loader_inv s'"
proof (cases e)
  case Call
  then show ?thesis using assms inv_Call by auto
next
  case ApiReady
  then show ?thesis using assms inv_ApiReady by auto
next
  case InvokeCallback
  then show ?thesis using assms inv_InvokeCallback
    by (auto split: option.splits if_splits)
next
  case (ScriptLoads i)
  then show ?thesis using assms inv_ScriptLoads
    by (auto split: if_splits)
next
  case (ScriptFails i)
  then show ?thesis using assms inv_ScriptFails[of s i]
    by (auto split: if_splits)
next
  case (IntervalTick q)
  then show ?thesis using assms inv_IntervalTick
    by (auto split: if_splits)
next
  case (TimeoutFires q)
  then show ?thesis using assms inv_TimeoutFires
    by (auto split: if_splits)
qed

lemma inv_run: "loader_inv s \<Longrightarrow> loader_run es s = Some s' \<Longrightarrow> loader_inv s'"
  by (induction es arbitrary: s) (auto split: option.splits dest: inv_step)

lemma inv_reachable:
  "loader_run es (initial_loader f a k) = Some s \<Longrightarrow> loader_inv s"
  using inv_run[OF inv_initial] by blast

lemma executor_loaded: "isScriptLoaded s \<Longrightarrow> isScriptLoaded (executor p s)"
  by (simp add: executor_def Let_def)

lemma call_loaded: "isScriptLoaded s \<Longrightarrow> isScriptLoaded (snd (loadGoogleMapsScript s))"
  by (simp add: loadGoogleMapsScript_def Let_def executor_loaded split: option.splits)

lemma step_loaded:
  assumes "isScriptLoaded s" "loader_step e s = Some s'"
  shows "isScriptLoaded s'"
proof (cases e)
  case Call
  then show ?thesis using assms call_loaded by auto
next
  case ApiReady
  then show ?thesis using assms by auto
next
  case InvokeCallback
  then show ?thesis using assms
    by (auto simp: callback_body_def split: option.splits if_splits)
next
  case (ScriptLoads i)
  then show ?thesis using assms by (auto split: if_splits)
next
  case (ScriptFails i)
  then show ?thesis using assms by (auto simp: script_onerror_def split: if_splits)
next
  case (IntervalTick q)
  then show ?thesis using assms by (auto simp: interval_tick_def split: if_splits)
next
  case (TimeoutFires q)
  then show ?thesis using assms by (auto simp: timeout_fire_def split: if_splits)
qed

lemma run_loaded: "isScriptLoaded s \<Longrightarrow> loader_run es s = Some s' \<Longrightarrow> isScriptLoaded s'"
  by (induction es arbitrary: s) (auto split: option.splits dest: step_loaded)

lemma inv_pending_call:
  assumes "loader_inv s" "pending s p"
  shows "loadGoogleMapsScript s = (PromiseRef p, s)"
  using assms(1)
proof (cases rule: inv_modes)
  case Succeeded
  then show ?thesis using assms(2) by (simp add: succeeded_def)
next
  case (LoadingMode q)
  then have "q = p" using assms(2) by (simp add: loading_mode_def)
  then show ?thesis using LoadingMode by (simp add: call_loading)
next
  case Idle
  then show ?thesis using assms(2) by (simp add: idle_def)
qed

lemma inv_loading_pending:
  assumes "loader_inv s" "isScriptLoading s"
  shows "\<exists>p. scriptLoadPromise s = Some p \<and> pending s p"
  using assms(1)
proof (cases rule: inv_modes)
  case Succeeded
  then show ?thesis using assms(2) by (simp add: succeeded_def)
next
  case (LoadingMode q)
  then show ?thesis by (simp add: loading_mode_def)
next
  case Idle
  then show ?thesis using assms(2) by (simp add: idle_def)
qed

lemma inv_pending_unique:
  assumes "loader_inv s" "pending s p" "pending s q"
  shows "p = q"
  using inv_pending_call[OF assms(1,2)] inv_pending_call[OF assms(1,3)] by simp

lemma inv_loaded_call:
  assumes "loader_inv s" "isScriptLoaded s"
  shows "loadGoogleMapsScript s = (ResolvedPromise, s)"
  using assms(1)
proof (cases rule: inv_modes)
  case Succeeded
  then show ?thesis by (rule call_succeeded)
next
  case (LoadingMode q)
  then show ?thesis using assms(2) by (simp add: loading_mode_def)
next
  case Idle
  then show ?thesis using assms(2) by (simp add: idle_def)
qed

lemma inv_resolved_loaded:
  assumes "loader_inv s" "resolved s p"
  shows "isScriptLoaded s"
  using assms(1)
proof (cases rule: inv_modes)
  case Succeeded
  then show ?thesis by (simp add: succeeded_def)
next
  case (LoadingMode q)
  then show ?thesis using assms(2) by (simp add: loading_mode_def)
next
  case Idle
  then show ?thesis using assms(2) by (simp add: idle_def)
qed

text \<open>
  C7. In every state the loader reaches from its initial state, by calls and by the
  browser's events: a call made while a promise of the loader is pending returns that
  promise and changes nothing, a load in progress has such a pending promise, and no two
  promises are pending at once; at most one script element has been appended; a resolved
  promise means the loader has succeeded; and once it has succeeded, this call and every
  later one returns an already resolved promise and changes nothing.
\<close>

theorem loader_init_once:
  assumes "loader_run es (initial_loader foreign api key) = Some s"
  shows
    "(\<forall>p. pending s p \<longrightarrow> loadGoogleMapsScript s = (PromiseRef p, s)) \<and>
     (isScriptLoading s \<longrightarrow> (\<exists>p. scriptLoadPromise s = Some p \<and> pending s p)) \<and>
     (\<forall>p q. pending s p \<and> pending s q \<longrightarrow> p = q) \<and>
     length (appended s) \<le> 1 \<and>
     (\<forall>p. resolved s p \<longrightarrow> isScriptLoaded s) \<and>
     (isScriptLoaded s \<longrightarrow>
        loadGoogleMapsScript s = (ResolvedPromise, s) \<and>
        (\<forall>es' s'. loader_run es' s = Some s' \<longrightarrow>
           isScriptLoaded s' \<and> loadGoogleMapsScript s' = (ResolvedPromise, s')))"
proof -
  have inv: "loader_inv s" using assms by (rule inv_reachable)
  have later: "loader_inv s'" if "loader_run es' s = Some s'" for es' s'
    using inv that by (rule inv_run)
  have 1: "\<forall>p. pending s p \<longrightarrow> loadGoogleMapsScript s = (PromiseRef p, s)"
    using inv_pending_call[OF inv] by blast
  have 2: "isScriptLoading s \<longrightarrow> (\<exists>p. scriptLoadPromise s = Some p \<and> pending s p)"
    using inv_loading_pending[OF inv] by blast
  have 3: "\<forall>p q. pending s p \<and> pending s q \<longrightarrow> p = q"
    using inv_pending_unique[OF inv] by blast
  have 4: "length (appended s) \<le> 1"
    using inv by (rule inv_appended)
  have 5: "\<forall>p. resolved s p \<longrightarrow> isScriptLoaded s"
    using inv_resolved_loaded[OF inv] by blast
  have 6: "isScriptLoaded s \<longrightarrow>
        loadGoogleMapsScript s = (ResolvedPromise, s) \<and>
        (\<forall>es' s'. loader_run es' s = Some s' \<longrightarrow>
           isScriptLoaded s' \<and> loadGoogleMapsScript s' = (ResolvedPromise, s'))"
  proof (intro impI conjI allI)
    assume l: "isScriptLoaded s"
    show "loadGoogleMapsScript s = (ResolvedPromise, s)"
      using inv l by (rule inv_loaded_call)
    fix es' s'
    assume r: "loader_run es' s = Some s'"
    show l': "isScriptLoaded s'" using l r by (rule run_loaded)
    show "loadGoogleMapsScript s' = (ResolvedPromise, s')"
      using later[OF r] l' by (rule inv_loaded_call)
  qed
  show ?thesis
    by (intro conjI) (rule 1 2 3 4 5 6)+
qed

theorem loader_init_once_witness:
  "loader_run [Call, Call] (initial_loader False False True) = Some loading_example \<and>
   pending loading_example 0 \<and>
   loadGoogleMapsScript loading_example = (PromiseRef 0, loading_example) \<and>
   length (appended loading_example) = 1 \<and>
   loader_run [Call, ScriptLoads 0, ApiReady, InvokeCallback, Call]
     (initial_loader False False True) = Some loaded_example \<and>
   isScriptLoaded loaded_example \<and>
   loadGoogleMapsScript loaded_example = (ResolvedPromise, loaded_example)"
proof -
  have call1: "loader_run [Call] (initial_loader False False True) = Some loading_example"
    by (simp add: initial_loader_def loading_example_def loadGoogleMapsScript_def
        executor_def existingScript_def Let_def)
  have call2: "loader_step Call loading_example = Some loading_example"
    by (simp add: loading_example_def loadGoogleMapsScript_def)
  have run1: "loader_run [Call, Call] (initial_loader False False True) = Some loading_example"
    using call1 call2 by (simp split: option.splits)
  have rest: "loader_run [ScriptLoads 0, ApiReady, InvokeCallback, Call] loading_example
      = Some loaded_example"
    by (simp add: loading_example_def loaded_example_def loadGoogleMapsScript_def
        callback_body_def settle_def)
  have run2: "loader_run [Call, ScriptLoads 0, ApiReady, InvokeCallback, Call]
     (initial_loader False False True) = Some loaded_example"
    using call1 rest by (simp split: option.splits)
  have p: "pending loading_example 0"
    by (simp add: pending_def loading_example_def)
  have l: "isScriptLoaded loaded_example" "length (appended loading_example) = 1"
    by (simp_all add: loaded_example_def loading_example_def)
  note first = loader_init_once[OF run1]
  note second = loader_init_once[OF run2]
  have c1: "loadGoogleMapsScript loading_example = (PromiseRef 0, loading_example)"
    using first[THEN conjunct1, THEN spec, THEN mp, OF p] .
  have c2: "loadGoogleMapsScript loaded_example = (ResolvedPromise, loaded_example)"
    using second[THEN conjunct2, THEN conjunct2, THEN conjunct2, THEN conjunct2,
        THEN conjunct2, THEN mp, OF l(1), THEN conjunct1] .
  show ?thesis
    by (intro conjI) (rule run1 run2 p l c1 c2)+
qed

end
